theory Spec2Isabelle
  imports Complex_Main
begin

section \<open>JavaScript numbers and array slices\<close>

text \<open>
  The batch size is whatever \<^verbatim>\<open>parseInt(options.batch, 10)\<close> returns: an integer or
  NaN. The loop index and the two batch counters are computed from it with \<^verbatim>\<open>+\<close>,
  \<^verbatim>\<open><\<close>, \<^verbatim>\<open>/\<close>, \<^verbatim>\<open>Math.floor\<close> and \<^verbatim>\<open>Math.ceil\<close>, so a
  number here is an integer, NaN or one of the two infinities (a division by zero).
  Integers are exact (array lengths are far below \<open>2^53\<close>); negative zero is not
  distinguished from zero.
\<close>

datatype number = Fin int | NaN | PInf | NInf

fun num_add :: "number \<Rightarrow> number \<Rightarrow> number" where
  "num_add (Fin a) (Fin b) = Fin (a + b)"
| "num_add NaN _ = NaN"
| "num_add _ NaN = NaN"
| "num_add PInf NInf = NaN"
| "num_add NInf PInf = NaN"
| "num_add PInf _ = PInf"
| "num_add _ PInf = PInf"
| "num_add NInf _ = NInf"
| "num_add _ NInf = NInf"

fun num_less :: "number \<Rightarrow> number \<Rightarrow> bool" where
  "num_less (Fin a) (Fin b) = (a < b)"
| "num_less NaN _ = False"
| "num_less _ NaN = False"
| "num_less NInf NInf = False"
| "num_less NInf _ = True"
| "num_less _ NInf = False"
| "num_less PInf _ = False"
| "num_less _ PInf = True"

text \<open>
  \<open>num_quot r a b\<close> is \<^verbatim>\<open>Math.floor(a / b)\<close> or \<^verbatim>\<open>Math.ceil(a / b)\<close>, the rounding
  \<open>r\<close> being applied to the exact quotient of two integers.
\<close>

fun num_quot :: "(int \<Rightarrow> int \<Rightarrow> int) \<Rightarrow> number \<Rightarrow> number \<Rightarrow> number" where
  "num_quot r (Fin a) (Fin b) =
     (if b = 0 then (if a = 0 then NaN else if 0 < a then PInf else NInf)
      else Fin (r a b))"
| "num_quot r NaN _ = NaN"
| "num_quot r _ NaN = NaN"
| "num_quot r (Fin a) _ = Fin 0"
| "num_quot r PInf (Fin b) = (if b < 0 then NInf else PInf)"
| "num_quot r NInf (Fin b) = (if b < 0 then PInf else NInf)"
| "num_quot r _ _ = NaN"

definition floor_div :: "int \<Rightarrow> int \<Rightarrow> int" where
  "floor_div a b = a div b"

definition ceil_div :: "int \<Rightarrow> int \<Rightarrow> int" where
  "ceil_div a b = - ((- a) div b)"

text \<open>
  \<^verbatim>\<open>Array.prototype.slice(start, end)\<close>: each bound is made an integer (NaN is 0),
  a negative bound counts from the end, both are clamped to the array, and an empty
  range gives the empty array.
\<close>

fun clamp_index :: "nat \<Rightarrow> number \<Rightarrow> nat" where
  "clamp_index len (Fin r) = (if r < 0 then nat (max (int len + r) 0) else min (nat r) len)"
| "clamp_index len NaN = 0"
| "clamp_index len PInf = len"
| "clamp_index len NInf = 0"

definition js_slice :: "'a list \<Rightarrow> number \<Rightarrow> number \<Rightarrow> 'a list" where
  "js_slice xs s e =
     (let k = clamp_index (length xs) s; final = clamp_index (length xs) e
      in take (final - k) (drop k xs))"

text \<open>
  \<^verbatim>\<open>parseInt(s, 10)\<close>: leading white space is skipped, a sign is read, then the
  longest run of decimal digits; no digit gives NaN. Strings are byte strings here, so
  only the ASCII white space is skipped.
\<close>

definition is_space :: "char \<Rightarrow> bool" where
  "is_space c = (of_char c \<in> {9, 10, 11, 12, 13, 32 :: nat})"

definition is_digit :: "char \<Rightarrow> bool" where
  "is_digit c = (48 \<le> (of_char c :: nat) \<and> (of_char c :: nat) \<le> 57)"

definition digits_value :: "string \<Rightarrow> nat" where
  "digits_value ds = foldl (\<lambda>a c. 10 * a + (of_char c - 48)) 0 ds"

definition parseInt :: "string \<Rightarrow> number" where
  "parseInt s =
     (let t = dropWhile is_space s;
          neg = (case t of [] \<Rightarrow> False | c # _ \<Rightarrow> c = CHR ''-'');
          u = (case t of [] \<Rightarrow> [] | c # r \<Rightarrow> if c = CHR ''-'' \<or> c = CHR ''+'' then r else t);
          ds = takeWhile is_digit u
      in if ds = [] then NaN
         else Fin ((if neg then - 1 else 1) * int (digits_value ds)))"

section \<open>Data\<close>

text \<open>A typed cell of a record: string, number, boolean or null.\<close>

datatype cell = Null | Str string | Num rat | Bool bool

type_synonym csv_record = "(string \<times> cell) list"

datatype parse_error = TooFewFields nat | TooManyFields nat | ScanError string

text \<open>The object \<^verbatim>\<open>Papa.parse\<close> returns, of which the program reads two fields.\<close>

record parse_result =
  data :: "csv_record list"
  errors :: "parse_error list"

record config =
  supabaseUrl :: string
  supabaseKey :: string
  tableName :: string
  uniqueKey :: string
  batchSize :: number

record options =
  table :: string
  id_opt :: string
  batch :: string

datatype fs_entry = File string | Directory

datatype exn = ENOENT string | EISDIR string | TypeError

text \<open>
  What the program finds outside itself: the environment variables, the working
  directory and the file system, and the three libraries it calls. The libraries are
  not part of the repository, so their results are parameters:
  \<^item> \<open>tokenize\<close> is \<^verbatim>\<open>Papa.parse\<close> with \<^verbatim>\<open>header: false\<close> and
    \<^verbatim>\<open>skipEmptyLines: true\<close>: the rows of string cells of a file content;
  \<open>scan_errors\<close> are the errors the tokenizer itself reports (quotes);
  \<^item> \<open>as_boolean\<close> and \<open>as_number\<close> are the dynamic typing of a cell;
  \<^item> \<open>upsert\<close> is the answer of the remote service to the \<open>k\<close>-th call of
    \<^verbatim>\<open>supabase.from(table).upsert(batch, {onConflict})\<close> of a run: the
    \<^verbatim>\<open>error\<close> field of the object the call resolves to.
\<close>

record world =
  env :: "string \<Rightarrow> string option"
  cwd :: string
  path_resolve :: "string \<Rightarrow> string \<Rightarrow> string"
  files :: "string \<Rightarrow> fs_entry option"
  tokenize :: "string \<Rightarrow> string list list"
  scan_errors :: "string \<Rightarrow> parse_error list"
  as_boolean :: "string \<Rightarrow> bool option"
  as_number :: "string \<Rightarrow> rat option"
  upsert :: "nat \<Rightarrow> string \<Rightarrow> csv_record list \<Rightarrow> string \<Rightarrow> string option"

text \<open>What a run does that can be observed: file accesses, upsert calls, printed lines.\<close>

datatype event =
    EnvErrorMsg
  | ExistsSync string
  | FileNotFoundMsg string
  | UpsertingMsg string string
  | UsingMsg string
  | ReadFile string
  | StructureMsg
  | ExpectedColumnsMsg nat
  | TotalRowsMsg nat
  | ValidRowsMsg nat
  | InvalidRowsMsg nat
  | SampleMsg
  | RowMsg nat
  | DetailedMsg
  | ActualColumnsMsg nat
  | ColumnMsg nat string string
  | ExtraColumnMsg nat string
  | RawRowMsg
  | RawLine string
  | WouldYouLikeMsg
  | ContinueOptionMsg
  | AbortOptionMsg
  | NoDataMsg
  | FoundMsg nat
  | Upsert string "csv_record list" string
  | BatchErrorMsg number string
  | ProcessedMsg number number
  | SummaryMsg nat nat
  | FatalMsg exn

text \<open>A function either returns or ends the process with \<^verbatim>\<open>process.exit\<close>.\<close>

datatype status = Returned | Exited nat

fun exit_code :: "status \<Rightarrow> nat" where
  "exit_code Returned = 0"
| "exit_code (Exited n) = n"

fun upsert_batches :: "event list \<Rightarrow> csv_record list list" where
  "upsert_batches [] = []"
| "upsert_batches (Upsert t b k # es) = b # upsert_batches es"
| "upsert_batches (_ # es) = upsert_batches es"

fun sample_rows :: "event list \<Rightarrow> nat list" where
  "sample_rows [] = []"
| "sample_rows (RowMsg i # es) = i # sample_rows es"
| "sample_rows (_ # es) = sample_rows es"

fun is_file_access :: "event \<Rightarrow> bool" where
  "is_file_access (ExistsSync p) = True"
| "is_file_access (ReadFile p) = True"
| "is_file_access _ = False"

definition readFileSync :: "world \<Rightarrow> string \<Rightarrow> exn + string" where
  "readFileSync w p =
     (case files w p of
        None \<Rightarrow> Inl (ENOENT p)
      | Some Directory \<Rightarrow> Inl (EISDIR p)
      | Some (File content) \<Rightarrow> Inr content)"

definition existsSync :: "world \<Rightarrow> string \<Rightarrow> bool" where
  "existsSync w p = (files w p \<noteq> None)"

section \<open>The typed parse\<close>

text \<open>The \<^verbatim>\<open>transform\<close> callback of \<^verbatim>\<open>upsertCsv\<close>.\<close>

definition transform :: "string \<Rightarrow> cell" where
  "transform v = (if v = '''' then Null else Str v)"

text \<open>
  \<^verbatim>\<open>Papa.parse\<close> with \<^verbatim>\<open>header: true\<close>, \<^verbatim>\<open>dynamicTyping: true\<close> and
  the transform above is a library call, absent from the sources. The four
  definitions that follow model it from section 4.2 of the specification.
\<close>

text \<open>
  Modelled from the spec: the dynamic typing of the library, which is missing from
  the sources. Boolean-looking strings become booleans, numeric-looking strings become
  numbers, anything else is kept as it is.
\<close>

definition dynamicTyping :: "world \<Rightarrow> cell \<Rightarrow> cell" where
  "dynamicTyping w v =
     (case v of
        Str s \<Rightarrow>
          (case as_boolean w s of
             Some b \<Rightarrow> Bool b
           | None \<Rightarrow> (case as_number w s of Some q \<Rightarrow> Num q | None \<Rightarrow> Str s))
      | _ \<Rightarrow> v)"

text \<open>
  Modelled from the spec: the library's treatment of one cell, which is missing from
  the sources. The transform is applied first, the dynamic typing after it.
\<close>

definition typed_cell :: "world \<Rightarrow> string \<Rightarrow> cell" where
  "typed_cell w v = dynamicTyping w (transform v)"

text \<open>
  Modelled from the spec: the record the library builds for a data row, which is
  missing from the sources. Each field name of the header is paired with the typed
  cell at its position; the cells of a row beyond the header's are left out here.
\<close>

definition typed_record :: "world \<Rightarrow> string list \<Rightarrow> string list \<Rightarrow> csv_record" where
  "typed_record w names row = zip names (map (typed_cell w) row)"

text \<open>
  Modelled from the spec: the errors the library reports for inconsistent field
  counts, which are missing from the sources. There is one entry for every data row
  whose field count differs from the header's.
\<close>

fun field_mismatches :: "nat \<Rightarrow> nat \<Rightarrow> string list list \<Rightarrow> parse_error list" where
  "field_mismatches n i [] = []"
| "field_mismatches n i (row # rows) =
     (if length row < n then TooFewFields i # field_mismatches n (Suc i) rows
      else if n < length row then TooManyFields i # field_mismatches n (Suc i) rows
      else field_mismatches n (Suc i) rows)"

text \<open>
  Modelled from the spec: the result of the header-mode parse, which is missing from
  the sources. Row 0 of the tokenized content supplies the field names, every later
  row gives a record, and the error list holds what the tokenizer reported followed by
  the field-count errors; parsing goes on after an error.
\<close>

definition papa_parse_header :: "world \<Rightarrow> string \<Rightarrow> parse_result" where
  "papa_parse_header w content =
     (case tokenize w content of
        [] \<Rightarrow> \<lparr>data = [], errors = scan_errors w content\<rparr>
      | names # rows \<Rightarrow>
          \<lparr>data = map (typed_record w names) rows,
           errors = scan_errors w content @ field_mismatches (length names) 0 rows\<rparr>)"

section \<open>analyzeErrors\<close>

record tally =
  validRows :: nat
  invalidRows :: nat
  problemRows :: "nat list"

text \<open>The validation loop, \<^verbatim>\<open>for (let i = 1; i < fullParseResult.data.length; i++)\<close>.\<close>

function validate_loop :: "string list \<Rightarrow> string list list \<Rightarrow> nat \<Rightarrow> tally \<Rightarrow> tally" where
  "validate_loop headers rows i t =
     (if i < length rows then
        (let row = rows ! i in
         if length row = length headers then
           validate_loop headers rows (Suc i) (t\<lparr>validRows := Suc (validRows t)\<rparr>)
         else
           validate_loop headers rows (Suc i)
             (t\<lparr>invalidRows := Suc (invalidRows t),
                problemRows := (if length (problemRows t) < 3 then problemRows t @ [i]
                                else problemRows t)\<rparr>))
      else t)"
  by pat_completeness auto
termination
  by (relation "measure (\<lambda>(headers, rows, i, t). length rows - i)") auto

text \<open>
  \<^verbatim>\<open>s.replace(/^"(.*)"$/, '$1')\<close>: the surrounding quotes are dropped when the
  string starts and ends with one and has no line terminator between them.
\<close>

definition strip_quotes :: "string \<Rightarrow> string" where
  "strip_quotes s =
     (if 2 \<le> length s \<and> hd s = CHR 0x22 \<and> last s = CHR 0x22
         \<and> list_all (\<lambda>c. c \<noteq> CHR 0x0A \<and> c \<noteq> CHR 0x0D) (butlast (tl s))
      then butlast (tl s) else s)"

text \<open>\<^verbatim>\<open>xs[i]\<close> is \<^verbatim>\<open>undefined\<close> out of range; an empty string is falsy as well.\<close>

definition truthy_at :: "string list \<Rightarrow> nat \<Rightarrow> bool" where
  "truthy_at xs i = (i < length xs \<and> xs ! i \<noteq> [])"

definition column_line :: "string list \<Rightarrow> string list \<Rightarrow> nat \<Rightarrow> event" where
  "column_line headers row i =
     (let header = (if truthy_at headers i then strip_quotes (headers ! i) else ''EXTRA'');
          v = (if truthy_at row i then strip_quotes (row ! i) else ''(empty)'')
      in if length headers \<le> i then ExtraColumnMsg (i + 1) v
         else ColumnMsg (i + 1) header v)"

fun join :: "string list \<Rightarrow> string" where
  "join [] = []"
| "join [x] = x"
| "join (x # xs) = x @ '','' @ join xs"

definition problem_report :: "string list \<Rightarrow> string list list \<Rightarrow> nat \<Rightarrow> event list" where
  "problem_report headers rows rowIndex =
     (let row = rows ! rowIndex in
      [RowMsg rowIndex, DetailedMsg,
       ExpectedColumnsMsg (length headers), ActualColumnsMsg (length row)]
      @ map (column_line headers row) [0..<max (length headers) (length row)]
      @ [RawRowMsg, RawLine (join row)])"

text \<open>
  \<^verbatim>\<open>analyzeErrors(parseResult.errors, parseResult.data, filePath)\<close>. The array of
  errors is shared with the caller, who sees it emptied; the result is the parse result
  as the caller finds it afterwards. On a content with no row at all,
  \<^verbatim>\<open>headers\<close> is \<^verbatim>\<open>undefined\<close> and reading its length throws.
\<close>

definition analyzeErrors ::
  "world \<Rightarrow> parse_result \<Rightarrow> string \<Rightarrow> event list \<times> (exn + parse_result)" where
  "analyzeErrors w pr filePath =
     (case readFileSync w filePath of
        Inl e \<Rightarrow> ([ReadFile filePath], Inl e)
      | Inr fileContent \<Rightarrow>
          (case tokenize w fileContent of
             [] \<Rightarrow> ([ReadFile filePath, StructureMsg], Inl TypeError)
           | headers # rest \<Rightarrow>
               (let rows = headers # rest;
                    t = validate_loop headers rows 1
                          \<lparr>validRows = 0, invalidRows = 0, problemRows = []\<rparr>
                in ([ReadFile filePath, StructureMsg,
                     ExpectedColumnsMsg (length headers), TotalRowsMsg (length rows),
                     ValidRowsMsg (validRows t)]
                    @ (if 0 < invalidRows t then
                         [InvalidRowsMsg (invalidRows t), SampleMsg]
                         @ concat (map (problem_report headers rows) (problemRows t))
                       else [])
                   , Inr (if invalidRows t = 0 then pr\<lparr>errors := []\<rparr> else pr)))))"

section \<open>upsertCsv\<close>

record loop_state =
  successCount :: nat
  calls :: nat
  out :: "event list"

text \<open>One iteration of the batch loop, at loop index \<open>i\<close>.\<close>

definition batch_body ::
  "world \<Rightarrow> config \<Rightarrow> csv_record list \<Rightarrow> number \<Rightarrow> loop_state \<Rightarrow> loop_state" where
  "batch_body w cfg records i st =
     (let batch_recs = js_slice records i (num_add i (batchSize cfg));
          currentBatch = num_add (num_quot floor_div i (batchSize cfg)) (Fin 1);
          totalBatches = num_quot ceil_div (Fin (int (length records))) (batchSize cfg)
      in case upsert w (calls st) (tableName cfg) batch_recs (uniqueKey cfg) of
           Some err \<Rightarrow>
             st\<lparr>calls := Suc (calls st),
                out := out st @ [Upsert (tableName cfg) batch_recs (uniqueKey cfg),
                                 BatchErrorMsg currentBatch err]\<rparr>
         | None \<Rightarrow>
             st\<lparr>successCount := successCount st + length batch_recs,
                calls := Suc (calls st),
                out := out st @ [Upsert (tableName cfg) batch_recs (uniqueKey cfg),
                                 ProcessedMsg currentBatch totalBatches]\<rparr>)"

text \<open>
  \<^verbatim>\<open>for (let i = 0; i < parseResult.data.length; i += config.batchSize)\<close>. Nothing in
  the program makes the batch size positive, and with a batch size of zero or less the
  loop never ends: the result is then \<open>None\<close>.
\<close>

partial_function (option) batch_loop ::
  "world \<Rightarrow> config \<Rightarrow> csv_record list \<Rightarrow> number \<Rightarrow> loop_state \<Rightarrow> loop_state option" where
  "batch_loop w cfg records i st =
     (if num_less i (Fin (int (length records))) then
        batch_loop w cfg records (num_add i (batchSize cfg)) (batch_body w cfg records i st)
      else Some st)"

text \<open>
  The state after the first \<open>m\<close> iterations, when the index advances by \<open>b\<close>:
  the loop body applied at the indices \<open>0\<close>, \<open>b\<close>, \<open>2 * b\<close>, ...
\<close>

definition iterations :: "world \<Rightarrow> config \<Rightarrow> csv_record list \<Rightarrow> nat \<Rightarrow> nat \<Rightarrow> loop_state" where
  "iterations w cfg records b m =
     foldl (\<lambda>s k. batch_body w cfg records (Fin (int (k * b))) s)
       \<lparr>successCount = 0, calls = 0, out = []\<rparr> [0..<m]"

text \<open>The part of \<^verbatim>\<open>upsertCsv\<close> from the count of records to the summary line.\<close>

definition process_batches :: "world \<Rightarrow> config \<Rightarrow> csv_record list \<Rightarrow> event list option" where
  "process_batches w cfg records =
     (case batch_loop w cfg records (Fin 0) \<lparr>successCount = 0, calls = 0, out = []\<rparr> of
        None \<Rightarrow> None
      | Some st \<Rightarrow>
          Some ([FoundMsg (length records)] @ out st
                @ [SummaryMsg (successCount st) (length records)]))"

text \<open>
  \<^verbatim>\<open>upsertCsv(filePath, config)\<close>: the trace of the run and how it ended, or
  \<open>None\<close> when the batch loop never ends. An exception is caught by the handler,
  which prints it and exits with status 1. Two exceptions are in the model, a file
  that cannot be read and the missing header row; \<^verbatim>\<open>createClient\<close> is taken to
  return a client, and an upsert call to resolve to an object with an
  \<^verbatim>\<open>error\<close> field, as the client library does for a failed request.
\<close>

definition upsertCsv :: "world \<Rightarrow> string \<Rightarrow> config \<Rightarrow> (event list \<times> status) option" where
  "upsertCsv w filePath cfg =
     (case readFileSync w filePath of
        Inl e \<Rightarrow> Some ([ReadFile filePath, FatalMsg e], Exited 1)
      | Inr csvFile \<Rightarrow>
          (let parseResult = papa_parse_header w csvFile
           in case analyzeErrors w parseResult filePath of
                (t, Inl e) \<Rightarrow> Some (ReadFile filePath # t @ [FatalMsg e], Exited 1)
              | (t, Inr parseResult') \<Rightarrow>
                  if errors parseResult' \<noteq> [] then
                    Some (ReadFile filePath # t
                          @ [WouldYouLikeMsg, ContinueOptionMsg, AbortOptionMsg], Exited 1)
                  else if data parseResult' = [] then
                    Some (ReadFile filePath # t @ [NoDataMsg], Returned)
                  else
                    (case process_batches w cfg (data parseResult') of
                       None \<Rightarrow> None
                     | Some t' \<Rightarrow> Some (ReadFile filePath # t @ t', Returned))))"

section \<open>The command\<close>

text \<open>
  The action of the command: the trace and the exit status of the process, which is 0
  when nothing called \<^verbatim>\<open>process.exit\<close>.
\<close>

definition action :: "world \<Rightarrow> string \<Rightarrow> options \<Rightarrow> (event list \<times> nat) option" where
  "action w file opts =
     (let url = (case env w ''SUPABASE_URL'' of None \<Rightarrow> [] | Some u \<Rightarrow> u);
          key = (case env w ''SUPABASE_KEY'' of None \<Rightarrow> [] | Some k \<Rightarrow> k)
      in if url = [] \<or> key = [] then Some ([EnvErrorMsg], 1)
         else
           (let cfg = \<lparr>supabaseUrl = url, supabaseKey = key, tableName = table opts,
                       uniqueKey = id_opt opts, batchSize = parseInt (batch opts)\<rparr>;
                filePath = path_resolve w (cwd w) file
            in if \<not> existsSync w filePath then
                 Some ([ExistsSync filePath, FileNotFoundMsg filePath], 1)
               else
                 (case upsertCsv w filePath cfg of
                    None \<Rightarrow> None
                  | Some (t, s) \<Rightarrow>
                      Some ([ExistsSync filePath, UpsertingMsg filePath (tableName cfg),
                             UsingMsg (uniqueKey cfg)] @ t, exit_code s))))"

section \<open>Sample inputs\<close>

text \<open>
  A world with both credentials and one file, \<^verbatim>\<open>/work/leads.csv\<close>, whose content
  tokenizes to \<open>rows\<close>, with \<open>errs\<close> the tokenizer's own errors and a remote
  service that rejects the calls numbered in \<open>failing\<close>.
\<close>

definition sample_world :: "string list list \<Rightarrow> parse_error list \<Rightarrow> nat list \<Rightarrow> world" where
  "sample_world rows errs failing =
     \<lparr>env = [''SUPABASE_URL'' \<mapsto> ''https://db.example.org'', ''SUPABASE_KEY'' \<mapsto> ''secret''],
      cwd = ''/work'',
      path_resolve = (\<lambda>d f. d @ ''/'' @ f),
      files = [''/work/leads.csv'' \<mapsto> File ''csv''],
      tokenize = (\<lambda>c. rows),
      scan_errors = (\<lambda>c. errs),
      as_boolean = (\<lambda>s. None),
      as_number = (\<lambda>s. None),
      upsert = (\<lambda>k t b c. if k \<in> set failing then Some ''rejected'' else None)\<rparr>"

definition sample_config :: "number \<Rightarrow> config" where
  "sample_config b =
     \<lparr>supabaseUrl = ''https://db.example.org'', supabaseKey = ''secret'',
      tableName = ''contacts'', uniqueKey = ''email'', batchSize = b\<rparr>"

definition sample_records :: "nat \<Rightarrow> csv_record list" where
  "sample_records n = map (\<lambda>i. [(''email'', Num (of_nat i))]) [0..<n]"

section \<open>The validation loop in closed form\<close>

declare validate_loop.simps [simp del]

lemma validate_loop_invalid:
  "invalidRows (validate_loop h rows i t) =
     invalidRows t + length (filter (\<lambda>j. length (rows ! j) \<noteq> length h) [i..<length rows])"
proof (induction h rows i t rule: validate_loop.induct)
  case (1 h rows i t)
  show ?case
  proof (cases "i < length rows")
    case True
    then show ?thesis
      using "1.IH" by (subst validate_loop.simps) (simp add: upt_conv_Cons Let_def)
  next
    case False
    then show ?thesis by (subst validate_loop.simps) simp
  qed
qed

lemma validate_loop_valid:
  "validRows (validate_loop h rows i t) =
     validRows t + length (filter (\<lambda>j. length (rows ! j) = length h) [i..<length rows])"
proof (induction h rows i t rule: validate_loop.induct)
  case (1 h rows i t)
  show ?case
  proof (cases "i < length rows")
    case True
    then show ?thesis
      using "1.IH" by (subst validate_loop.simps) (simp add: upt_conv_Cons Let_def)
  next
    case False
    then show ?thesis by (subst validate_loop.simps) simp
  qed
qed

lemma validate_loop_problems:
  "problemRows (validate_loop h rows i t) =
     problemRows t @ take (3 - length (problemRows t))
        (filter (\<lambda>j. length (rows ! j) \<noteq> length h) [i..<length rows])"
proof (induction h rows i t rule: validate_loop.induct)
  case (1 h rows i t)
  show ?case
  proof (cases "i < length rows")
    case True
    then show ?thesis
      using "1.IH" by (subst validate_loop.simps) (auto simp add: upt_conv_Cons Let_def take_Cons')
  next
    case False
    then show ?thesis by (subst validate_loop.simps) simp
  qed
qed

lemma filter_tail_indices:
  "length (filter (\<lambda>j. P ((h # rest) ! j)) [1..<length (h # rest)]) = length (filter P rest)"
proof -
  have "[1..<length (h # rest)] = map Suc [0..<length rest]"
    by (simp add: map_Suc_upt)
  then have "filter (\<lambda>j. P ((h # rest) ! j)) [1..<length (h # rest)]
      = map Suc (filter (\<lambda>j. P (rest ! j)) [0..<length rest])"
    by (simp add: filter_map comp_def)
  moreover have "length (filter (\<lambda>j. P (rest ! j)) [0..<length rest]) = length (filter P rest)"
  proof -
    have "filter P rest = filter P (map ((!) rest) [0..<length rest])"
      by (simp only: map_nth)
    also have "\<dots> = map ((!) rest) (filter (P \<circ> (!) rest) [0..<length rest])"
      by (rule filter_map)
    finally have "length (filter P rest) = length (filter (P \<circ> (!) rest) [0..<length rest])"
      by (simp only: length_map)
    then show ?thesis by (simp only: comp_def)
  qed
  ultimately show ?thesis by simp
qed

section \<open>The batch loop in closed form\<close>

lemma less_batches_iff:
  assumes "0 < b"
  shows "(j < nat \<lceil>real n / real b\<rceil>) = (j * b < n)"
proof -
  have "(j < nat \<lceil>real n / real b\<rceil>) = (int j < \<lceil>real n / real b\<rceil>)"
    by (simp add: zless_nat_eq_int_zless)
  also have "\<dots> = (real j < real n / real b)"
    by (simp add: less_ceiling_iff)
  also have "\<dots> = (real j * real b < real n)"
    using assms by (simp add: pos_less_divide_eq)
  also have "\<dots> = (j * b < n)"
    by (metis of_nat_less_iff of_nat_mult)
  finally show ?thesis .
qed

lemma ceil_div_batches:
  "ceil_div (int n) (int b) = \<lceil>real n / real b\<rceil>"
proof -
  have "\<lceil>real_of_int (int n) / real_of_int (int b)\<rceil> = - (- int n div int b)"
    by (rule ceiling_divide_eq_div)
  then show ?thesis by (simp add: ceil_div_def)
qed

lemma js_slice_batch:
  "js_slice xs (Fin (int a)) (num_add (Fin (int a)) (Fin (int b))) = take b (drop a xs)"
  by (cases "a \<le> length xs") (simp_all add: js_slice_def Let_def min_def nat_add_distrib)

lemma batch_body_step:
  assumes "batchSize cfg = Fin (int b)" and "0 < b"
  shows "batch_body w cfg records (Fin (int (k * b))) st =
     (case upsert w (calls st) (tableName cfg) (take b (drop (k * b) records)) (uniqueKey cfg) of
        Some err \<Rightarrow>
          st\<lparr>calls := Suc (calls st),
             out := out st @ [Upsert (tableName cfg) (take b (drop (k * b) records)) (uniqueKey cfg),
                              BatchErrorMsg (Fin (int k + 1)) err]\<rparr>
      | None \<Rightarrow>
          st\<lparr>successCount := successCount st + length (take b (drop (k * b) records)),
             calls := Suc (calls st),
             out := out st @ [Upsert (tableName cfg) (take b (drop (k * b) records)) (uniqueKey cfg),
                              ProcessedMsg (Fin (int k + 1))
                                (Fin \<lceil>real (length records) / real b\<rceil>)]\<rparr>)"
proof -
  have q: "num_quot floor_div (Fin (int (k * b))) (Fin (int b)) = Fin (int k)"
    using assms(2) by (simp add: floor_div_def)
  have t: "num_quot ceil_div (Fin (int (length records))) (Fin (int b))
             = Fin \<lceil>real (length records) / real b\<rceil>"
    using assms(2) by (simp add: ceil_div_batches)
  show ?thesis
    unfolding batch_body_def assms(1) js_slice_batch q t
    by (simp add: Let_def)
qed

lemma num_less_nat: "num_less (Fin (int a)) (Fin (int c)) = (a < c)"
  by simp

lemma batch_loop_from:
  assumes bs: "batchSize cfg = Fin (int b)" and b: "0 < b"
    and j: "j \<le> nat \<lceil>real (length records) / real b\<rceil>"
  shows "batch_loop w cfg records (Fin (int (j * b))) st =
     Some (foldl (\<lambda>s k. batch_body w cfg records (Fin (int (k * b))) s) st
             [j..<nat \<lceil>real (length records) / real b\<rceil>])"
proof -
  define M where "M = nat \<lceil>real (length records) / real b\<rceil>"
  have iff: "(i < M) = (i * b < length records)" for i
    unfolding M_def by (rule less_batches_iff [OF b])
  have "batch_loop w cfg records (Fin (int (i * b))) s =
     Some (foldl (\<lambda>s k. batch_body w cfg records (Fin (int (k * b))) s) s [i..<M])"
    if "i \<le> M" for i s
    using that
  proof (induction "M - i" arbitrary: i s)
    case 0
    then have e: "[i..<M] = []" by simp
    from 0 have "\<not> i < M" by linarith
    then have "\<not> i * b < length records"
      using iff by blast
    then have c: "\<not> num_less (Fin (int (i * b))) (Fin (int (length records)))"
      using num_less_nat [of "i * b" "length records"] by blast
    show ?case
      by (subst batch_loop.simps) (simp only: c e if_False foldl_Nil)
  next
    case (Suc d)
    then have lt: "i < M" by linarith
    then have "i * b < length records"
      using iff by blast
    then have c: "num_less (Fin (int (i * b))) (Fin (int (length records)))"
      using num_less_nat [of "i * b" "length records"] by blast
    have nxt: "num_add (Fin (int (i * b))) (batchSize cfg) = Fin (int (Suc i * b))"
      by (simp add: bs algebra_simps)
    have d: "d = M - Suc i" and le: "Suc i \<le> M"
      using Suc.hyps(2) lt by linarith+
    have "batch_loop w cfg records (Fin (int (i * b))) s =
          batch_loop w cfg records (Fin (int (Suc i * b)))
            (batch_body w cfg records (Fin (int (i * b))) s)"
      by (subst batch_loop.simps) (simp only: c nxt if_True)
    also have "\<dots> = Some (foldl (\<lambda>s k. batch_body w cfg records (Fin (int (k * b))) s)
              (batch_body w cfg records (Fin (int (i * b))) s) [Suc i..<M])"
      by (rule Suc.hyps(1) [OF d le])
    finally show ?case
      using lt by (simp add: upt_conv_Cons)
  qed
  then show ?thesis
    using j unfolding M_def by blast
qed

lemma upsert_batches_append:
  "upsert_batches (xs @ ys) = upsert_batches xs @ upsert_batches ys"
  by (induction xs rule: upsert_batches.induct) simp_all

lemma iterations_0:
  "iterations w cfg records b 0 = \<lparr>successCount = 0, calls = 0, out = []\<rparr>"
  by (simp add: iterations_def)

lemma iterations_Suc:
  "iterations w cfg records b (Suc m) =
     batch_body w cfg records (Fin (int (m * b))) (iterations w cfg records b m)"
  by (simp add: iterations_def)

lemma batch_loop_iterations:
  assumes "batchSize cfg = Fin (int b)" and "0 < b"
  shows "batch_loop w cfg records (Fin 0) \<lparr>successCount = 0, calls = 0, out = []\<rparr> =
           Some (iterations w cfg records b (nat \<lceil>real (length records) / real b\<rceil>))"
  using batch_loop_from [OF assms, of 0 records w "\<lparr>successCount = 0, calls = 0, out = []\<rparr>"]
  by (simp add: iterations_def)

lemma calls_iterations:
  assumes "batchSize cfg = Fin (int b)" and "0 < b"
  shows "calls (iterations w cfg records b m) = m"
proof (induction m)
  case 0
  show ?case by (simp add: iterations_0)
next
  case (Suc m)
  then show ?case
    by (simp add: iterations_Suc batch_body_step [OF assms] del: of_nat_mult
        split: option.split)
qed

lemma batches_iterations:
  assumes "batchSize cfg = Fin (int b)" and "0 < b"
  shows "upsert_batches (out (iterations w cfg records b m)) =
           map (\<lambda>k. take b (drop (k * b) records)) [0..<m]"
proof (induction m)
  case 0
  show ?case by (simp add: iterations_0)
next
  case (Suc m)
  then show ?case
    by (simp add: iterations_Suc batch_body_step [OF assms] upsert_batches_append
        del: of_nat_mult split: option.split)
qed

lemma success_iterations:
  assumes "batchSize cfg = Fin (int b)" and "0 < b"
  shows "successCount (iterations w cfg records b m) =
           sum_list (map (\<lambda>k. if upsert w k (tableName cfg) (take b (drop (k * b) records))
                                    (uniqueKey cfg) = None
                               then length (take b (drop (k * b) records)) else 0) [0..<m])"
proof (induction m)
  case 0
  show ?case by (simp add: iterations_0)
next
  case (Suc m)
  then show ?case
    by (simp add: iterations_Suc batch_body_step [OF assms] calls_iterations [OF assms]
        del: of_nat_mult split: option.split)
qed

lemma concat_batches:
  "concat (map (\<lambda>k. take b (drop (k * b) xs)) [0..<m]) = take (m * b) xs"
proof (induction m)
  case 0
  show ?case by simp
next
  case (Suc m)
  have "take (Suc m * b) xs = take (m * b) xs @ take b (drop (m * b) xs)"
    using take_add [of "m * b" b xs] by (simp add: add.commute)
  with Suc show ?case by simp
qed

lemma batches_cover:
  assumes "0 < b"
  shows "take (nat \<lceil>real (length xs) / real b\<rceil> * b) xs = xs"
proof -
  have "\<not> nat \<lceil>real (length xs) / real b\<rceil> * b < length xs"
    using less_batches_iff [OF assms, of "nat \<lceil>real (length xs) / real b\<rceil>" "length xs"]
    by simp
  then show ?thesis by simp
qed

section \<open>The run in closed form\<close>

lemma sample_rows_append:
  "sample_rows (xs @ ys) = sample_rows xs @ sample_rows ys"
  by (induction xs rule: sample_rows.induct) simp_all

lemma column_lines_silent:
  "upsert_batches (map (column_line headers row) is) = []"
  "sample_rows (map (column_line headers row) is) = []"
  by (induction "is") (simp_all add: column_line_def Let_def)

lemma problem_report_events:
  "upsert_batches (problem_report headers rows i) = []"
  "sample_rows (problem_report headers rows i) = [i]"
  by (simp_all add: problem_report_def Let_def upsert_batches_append sample_rows_append
      column_lines_silent)

lemma problem_reports_events:
  "upsert_batches (concat (map (problem_report headers rows) is)) = []"
  "sample_rows (concat (map (problem_report headers rows) is)) = is"
  by (induction "is")
    (simp_all add: upsert_batches_append sample_rows_append problem_report_events)

lemma field_mismatches_empty:
  "(field_mismatches n i rows = []) = list_all (\<lambda>r. length r = n) rows"
  by (induction rows arbitrary: i) auto

lemma tally_closed:
  "validate_loop h (h # rest) (Suc 0) \<lparr>validRows = 0, invalidRows = 0, problemRows = []\<rparr> =
     \<lparr>validRows = length (filter (\<lambda>r. length r = length h) rest),
      invalidRows = length (filter (\<lambda>r. length r \<noteq> length h) rest),
      problemRows = take 3 (filter (\<lambda>i. length ((h # rest) ! i) \<noteq> length h)
                              [Suc 0..<Suc (length rest)])\<rparr>"
proof -
  define t where
    "t = validate_loop h (h # rest) (Suc 0) \<lparr>validRows = 0, invalidRows = 0, problemRows = []\<rparr>"
  have v: "validRows t = length (filter (\<lambda>r. length r = length h) rest)"
    unfolding t_def
    using filter_tail_indices [of "\<lambda>r. length r = length h" h rest]
    by (subst validate_loop_valid) simp
  have i: "invalidRows t = length (filter (\<lambda>r. length r \<noteq> length h) rest)"
    unfolding t_def
    using filter_tail_indices [of "\<lambda>r. length r \<noteq> length h" h rest]
    by (subst validate_loop_invalid) simp
  have p: "problemRows t = take 3 (filter (\<lambda>i. length ((h # rest) ! i) \<noteq> length h)
                              [Suc 0..<Suc (length rest)])"
    unfolding t_def by (subst validate_loop_problems) simp
  have "t = \<lparr>validRows = length (filter (\<lambda>r. length r = length h) rest),
      invalidRows = length (filter (\<lambda>r. length r \<noteq> length h) rest),
      problemRows = take 3 (filter (\<lambda>i. length ((h # rest) ! i) \<noteq> length h)
                              [Suc 0..<Suc (length rest)])\<rparr>"
    by (rule tally.equality) (simp_all add: v i p)
  then show ?thesis
    unfolding t_def .
qed

lemma analyzeErrors_clean:
  assumes "files w p = Some (File c)" and "tokenize w c = h # rest"
    and "list_all (\<lambda>r. length r = length h) rest"
  shows "analyzeErrors w pr p =
           ([ReadFile p, StructureMsg, ExpectedColumnsMsg (length h),
             TotalRowsMsg (Suc (length rest)), ValidRowsMsg (length rest)],
            Inr (pr\<lparr>errors := []\<rparr>))"
proof -
  from assms(3) have "filter (\<lambda>r. length r \<noteq> length h) rest = []"
    and "filter (\<lambda>r. length r = length h) rest = rest"
    by (simp_all add: list_all_iff filter_empty_conv filter_id_conv)
  then show ?thesis
    by (simp add: analyzeErrors_def readFileSync_def assms(1,2) tally_closed Let_def)
qed

lemma analyzeErrors_mismatch:
  assumes "files w p = Some (File c)" and "tokenize w c = h # rest"
    and "\<not> list_all (\<lambda>r. length r = length h) rest"
  shows "analyzeErrors w pr p =
           ([ReadFile p, StructureMsg, ExpectedColumnsMsg (length h),
             TotalRowsMsg (Suc (length rest)),
             ValidRowsMsg (length (filter (\<lambda>r. length r = length h) rest)),
             InvalidRowsMsg (length (filter (\<lambda>r. length r \<noteq> length h) rest)), SampleMsg]
            @ concat (map (problem_report h (h # rest))
                (take 3 (filter (\<lambda>i. length ((h # rest) ! i) \<noteq> length h)
                           [Suc 0..<Suc (length rest)]))),
            Inr pr)"
proof -
  from assms(3) have "filter (\<lambda>r. length r \<noteq> length h) rest \<noteq> []"
    by (simp add: list_all_iff filter_empty_conv)
  then show ?thesis
    by (simp add: analyzeErrors_def readFileSync_def assms(1,2) tally_closed Let_def)
qed

lemma analyzeErrors_empty:
  assumes "files w p = Some (File c)" and "tokenize w c = []"
  shows "analyzeErrors w pr p = ([ReadFile p, StructureMsg], Inl TypeError)"
  by (simp add: analyzeErrors_def readFileSync_def assms)

lemma parse_header_rows:
  assumes "tokenize w c = h # rest"
  shows "data (papa_parse_header w c) = map (typed_record w h) rest"
    and "errors (papa_parse_header w c) =
           scan_errors w c @ field_mismatches (length h) 0 rest"
  by (simp_all add: papa_parse_header_def assms)

lemma upsertCsv_mismatch:
  assumes "files w p = Some (File c)" and "tokenize w c = h # rest"
    and "\<not> list_all (\<lambda>r. length r = length h) rest"
  shows "upsertCsv w p cfg =
           Some (ReadFile p # fst (analyzeErrors w (papa_parse_header w c) p)
                 @ [WouldYouLikeMsg, ContinueOptionMsg, AbortOptionMsg], Exited 1)"
proof -
  have "errors (papa_parse_header w c) \<noteq> []"
    using assms(3) by (simp add: parse_header_rows [OF assms(2)] field_mismatches_empty)
  then show ?thesis
    by (simp add: upsertCsv_def readFileSync_def assms(1) analyzeErrors_mismatch [OF assms])
qed

lemma upsertCsv_clean:
  assumes "files w p = Some (File c)" and "tokenize w c = h # rest"
    and "list_all (\<lambda>r. length r = length h) rest"
  shows "upsertCsv w p cfg =
           (if rest = [] then
              Some (ReadFile p # fst (analyzeErrors w (papa_parse_header w c) p) @ [NoDataMsg],
                    Returned)
            else
              (case process_batches w cfg (map (typed_record w h) rest) of
                 None \<Rightarrow> None
               | Some t' \<Rightarrow>
                   Some (ReadFile p # fst (analyzeErrors w (papa_parse_header w c) p) @ t',
                         Returned)))"
  by (simp add: upsertCsv_def readFileSync_def assms(1) analyzeErrors_clean [OF assms]
      parse_header_rows [OF assms(2)] split: option.split)

lemma upsertCsv_empty:
  assumes "files w p = Some (File c)" and "tokenize w c = []"
  shows "upsertCsv w p cfg =
           Some ([ReadFile p, ReadFile p, StructureMsg, FatalMsg TypeError], Exited 1)"
  by (simp add: upsertCsv_def readFileSync_def assms(1) analyzeErrors_empty [OF assms])

lemma process_batches_closed:
  assumes "batchSize cfg = Fin (int b)" and "0 < b"
  shows "process_batches w cfg records =
     Some ([FoundMsg (length records)]
           @ out (iterations w cfg records b (nat \<lceil>real (length records) / real b\<rceil>))
           @ [SummaryMsg
                (successCount (iterations w cfg records b (nat \<lceil>real (length records) / real b\<rceil>)))
                (length records)])"
  by (simp add: process_batches_def batch_loop_iterations [OF assms])

lemma upsertCsv_run:
  assumes "files w p = Some (File c)" and "tokenize w c = h # rest"
    and "list_all (\<lambda>r. length r = length h) rest" and "rest \<noteq> []"
    and "batchSize cfg = Fin (int b)" and "0 < b"
  shows "upsertCsv w p cfg =
     Some ([ReadFile p, ReadFile p, StructureMsg, ExpectedColumnsMsg (length h),
            TotalRowsMsg (Suc (length rest)), ValidRowsMsg (length rest),
            FoundMsg (length rest)]
           @ out (iterations w cfg (map (typed_record w h) rest) b
                    (nat \<lceil>real (length rest) / real b\<rceil>))
           @ [SummaryMsg
                (successCount (iterations w cfg (map (typed_record w h) rest) b
                    (nat \<lceil>real (length rest) / real b\<rceil>)))
                (length rest)],
           Returned)"
  using assms(4)
  by (simp add: upsertCsv_clean [OF assms(1-3)] analyzeErrors_clean [OF assms(1-3)]
      process_batches_closed [OF assms(5,6)])

lemma upsertCsv_run_batches:
  assumes "files w p = Some (File c)" and "tokenize w c = h # rest"
    and "list_all (\<lambda>r. length r = length h) rest" and "rest \<noteq> []"
    and "batchSize cfg = Fin (int b)" and "0 < b"
  shows "\<exists>t. upsertCsv w p cfg = Some (t, Returned)
     \<and> upsert_batches t =
         map (\<lambda>k. take b (drop (k * b) (map (typed_record w h) rest)))
           [0..<nat \<lceil>real (length rest) / real b\<rceil>]
     \<and> last t =
         SummaryMsg
           (sum_list (map (\<lambda>k. if upsert w k (tableName cfg)
                                     (take b (drop (k * b) (map (typed_record w h) rest)))
                                     (uniqueKey cfg) = None
                                then length (take b (drop (k * b) (map (typed_record w h) rest)))
                                else 0)
                        [0..<nat \<lceil>real (length rest) / real b\<rceil>]))
           (length rest)"
  by (simp add: upsertCsv_run [OF assms] upsert_batches_append
      batches_iterations [OF assms(5,6)] success_iterations [OF assms(5,6)])

lemma scenario_three_batches:
  assumes "length records = 125"
  shows "[0..<nat \<lceil>real (length records) / real 50\<rceil>] = [0, 1, 2]"
    and "length (take 50 records) = 50"
    and "length (take 50 (drop 50 records)) = 50"
    and "length (take 50 (drop 100 records)) = 25"
proof -
  have "nat \<lceil>real (length records) / real 50\<rceil> = Suc (Suc (Suc 0))"
    by (simp add: assms)
  then show "[0..<nat \<lceil>real (length records) / real 50\<rceil>] = [0, 1, 2]"
    by (simp add: upt_conv_Cons)
qed (simp_all add: assms)

lemma sample_scenario:
  "files (sample_world rows errs failing) ''/work/leads.csv'' = Some (File ''csv'')"
  "tokenize (sample_world rows errs failing) c = rows"
  "scan_errors (sample_world rows errs failing) c = errs"
  "upsert (sample_world rows errs failing) k t bt ck =
     (if k \<in> set failing then Some ''rejected'' else None)"
  "batchSize (sample_config b) = b"
  "tableName (sample_config b) = ''contacts''"
  "uniqueKey (sample_config b) = ''email''"
  by (simp_all add: sample_world_def sample_config_def)

lemma upsertCsv_returns:
  assumes "batchSize cfg = Fin (int b)" and "0 < b"
  shows "\<exists>r. upsertCsv w p cfg = Some r"
  by (simp add: upsertCsv_def Let_def process_batches_closed [OF assms]
      split: sum.split prod.split)

lemma sample_env:
  "env (sample_world rows errs failing) ''SUPABASE_URL'' = Some ''https://db.example.org''"
  "env (sample_world rows errs failing) ''SUPABASE_KEY'' = Some ''secret''"
  "path_resolve (sample_world rows errs failing) (cwd (sample_world rows errs failing))
     ''leads.csv'' = ''/work/leads.csv''"
  by (simp_all add: sample_world_def)

lemma action_runs:
  assumes "env w ''SUPABASE_URL'' = Some u" and "u \<noteq> []"
    and "env w ''SUPABASE_KEY'' = Some k" and "k \<noteq> []"
    and "files w (path_resolve w (cwd w) file) = Some e"
  shows "action w file opts =
     (case upsertCsv w (path_resolve w (cwd w) file)
             \<lparr>supabaseUrl = u, supabaseKey = k, tableName = table opts,
              uniqueKey = id_opt opts, batchSize = parseInt (batch opts)\<rparr> of
        None \<Rightarrow> None
      | Some (t, s) \<Rightarrow>
          Some ([ExistsSync (path_resolve w (cwd w) file),
                 UpsertingMsg (path_resolve w (cwd w) file) (table opts),
                 UsingMsg (id_opt opts)] @ t, exit_code s))"
  by (simp add: action_def assms existsSync_def Let_def split: option.split prod.split)

lemma set_js_slice: "set (js_slice xs s e) \<subseteq> set xs"
  unfolding js_slice_def Let_def
  by (meson set_take_subset set_drop_subset subset_trans)

lemma batch_body_slices:
  assumes "list_all (\<lambda>bt. \<exists>s e. bt = js_slice records s e) (upsert_batches (out st))"
  shows "list_all (\<lambda>bt. \<exists>s e. bt = js_slice records s e)
           (upsert_batches (out (batch_body w cfg records i st)))"
  using assms
  by (auto simp: batch_body_def Let_def upsert_batches_append split: option.split)

lemma batch_loop_slices:
  assumes "batch_loop w cfg records i st = Some st'"
  shows "list_all (\<lambda>bt. \<exists>s e. bt = js_slice records s e) (upsert_batches (out st))
     \<longrightarrow> list_all (\<lambda>bt. \<exists>s e. bt = js_slice records s e) (upsert_batches (out st'))"
proof (rule batch_loop.raw_induct
        [where P = "\<lambda>w cfg records i st st'.
           list_all (\<lambda>bt. \<exists>s e. bt = js_slice records s e) (upsert_batches (out st))
           \<longrightarrow> list_all (\<lambda>bt. \<exists>s e. bt = js_slice records s e) (upsert_batches (out st'))",
         OF _ assms])
  fix f :: "world \<Rightarrow> config \<Rightarrow> csv_record list \<Rightarrow> number \<Rightarrow> loop_state \<Rightarrow> loop_state option"
    and w cfg records i st st'
  assume IH: "\<And>w cfg records i st y. f w cfg records i st = Some y \<Longrightarrow>
           list_all (\<lambda>bt. \<exists>s e. bt = js_slice records s e) (upsert_batches (out st))
           \<longrightarrow> list_all (\<lambda>bt. \<exists>s e. bt = js_slice records s e) (upsert_batches (out y))"
    and eq: "(if num_less i (Fin (int (length records)))
              then f w cfg records (num_add i (batchSize cfg)) (batch_body w cfg records i st)
              else Some st) = Some st'"
  show "list_all (\<lambda>bt. \<exists>s e. bt = js_slice records s e) (upsert_batches (out st))
     \<longrightarrow> list_all (\<lambda>bt. \<exists>s e. bt = js_slice records s e) (upsert_batches (out st'))"
  proof (cases "num_less i (Fin (int (length records)))")
    case True
    with eq have "f w cfg records (num_add i (batchSize cfg)) (batch_body w cfg records i st)
        = Some st'"
      by simp
    from IH [OF this] batch_body_slices [of records st w cfg i] show ?thesis
      by blast
  next
    case False
    with eq show ?thesis by simp
  qed
qed

lemma process_batches_slices:
  assumes "process_batches w cfg records = Some t"
  shows "list_all (\<lambda>bt. \<exists>s e. bt = js_slice records s e) (upsert_batches t)"
proof -
  from assms obtain st where
    st: "batch_loop w cfg records (Fin 0) \<lparr>successCount = 0, calls = 0, out = []\<rparr> = Some st"
    and t: "t = [FoundMsg (length records)] @ out st
                @ [SummaryMsg (successCount st) (length records)]"
    by (auto simp: process_batches_def split: option.splits)
  have "list_all (\<lambda>bt. \<exists>s e. bt = js_slice records s e) (upsert_batches (out st))"
    using batch_loop_slices [OF st] by simp
  then show ?thesis
    by (simp add: t upsert_batches_append)
qed

lemma analysis_silent:
  "upsert_batches (fst (analyzeErrors w pr p)) = []"
  by (simp add: analyzeErrors_def Let_def upsert_batches_append problem_reports_events
      split: sum.split fs_entry.split list.split)

section \<open>The structural analyzer\<close>

text \<open>
  C6. For every tokenized file with a header row, the validation loop of
  \<^verbatim>\<open>analyzeErrors\<close> ends with \<open>invalidRows\<close> equal to the number of data rows (the
  rows after row 0) whose cell count differs from the header's, and with
  \<open>problemRows\<close> holding the indices of the first three of them (all of them when
  there are fewer), in the order of the file; when every row has as many cells as the
  header, \<open>invalidRows\<close> is 0 and \<open>problemRows\<close> is empty.
\<close>

theorem analyzer_counts_mismatched_rows:
  "let rows = headers # rest;
       t = validate_loop headers rows 1 \<lparr>validRows = 0, invalidRows = 0, problemRows = []\<rparr>;
       bad = filter (\<lambda>i. length (rows ! i) \<noteq> length headers) [1..<length rows]
   in invalidRows t = length (filter (\<lambda>r. length r \<noteq> length headers) rest)
    \<and> invalidRows t = length bad
    \<and> problemRows t = take 3 bad
    \<and> length (problemRows t) = min (invalidRows t) 3
    \<and> (list_all (\<lambda>r. length r = length headers) rest
         \<longrightarrow> invalidRows t = 0 \<and> problemRows t = [])"
proof -
  define rows where "rows = headers # rest"
  define t where
    "t = validate_loop headers rows 1 \<lparr>validRows = 0, invalidRows = 0, problemRows = []\<rparr>"
  define bad where
    "bad = filter (\<lambda>i. length (rows ! i) \<noteq> length headers) [1..<length rows]"
  have inv: "invalidRows t = length bad"
    unfolding t_def bad_def by (subst validate_loop_invalid) simp
  have prob: "problemRows t = take 3 bad"
    unfolding t_def bad_def by (subst validate_loop_problems) simp
  have cnt: "length bad = length (filter (\<lambda>r. length r \<noteq> length headers) rest)"
    unfolding bad_def rows_def
    by (rule filter_tail_indices [of "\<lambda>r. length r \<noteq> length headers" headers rest])
  have none: "invalidRows t = 0 \<and> problemRows t = []"
    if "list_all (\<lambda>r. length r = length headers) rest"
  proof -
    from that have "filter (\<lambda>r. length r \<noteq> length headers) rest = []"
      by (simp add: list_all_iff filter_empty_conv)
    then have "bad = []" using cnt by simp
    then show ?thesis using inv prob by simp
  qed
  have "invalidRows t = length (filter (\<lambda>r. length r \<noteq> length headers) rest)
    \<and> invalidRows t = length bad
    \<and> problemRows t = take 3 bad
    \<and> length (problemRows t) = min (invalidRows t) 3
    \<and> (list_all (\<lambda>r. length r = length headers) rest
         \<longrightarrow> invalidRows t = 0 \<and> problemRows t = [])"
    using inv prob cnt none by (simp add: min_def)
  then show ?thesis
    unfolding Let_def rows_def [symmetric] t_def [symmetric] bad_def [symmetric] .
qed

theorem analyzer_counts_mismatched_rows_witness:
  "list_all (\<lambda>r. length r = length [''a'', ''b'', ''c'']) [[''1'', ''2'', ''3''], [''4'', ''5'', ''6'']]
   \<and> invalidRows (validate_loop [''a'', ''b'', ''c'']
         ([''a'', ''b'', ''c''] # [[''1'', ''2'', ''3''], [''4'', ''5'', ''6'']]) 1
         \<lparr>validRows = 0, invalidRows = 0, problemRows = []\<rparr>) = 0
   \<and> problemRows (validate_loop [''a'', ''b'', ''c'']
         ([''a'', ''b'', ''c''] # [[''1'', ''2'', ''3''], [''4'', ''5'', ''6'']]) 1
         \<lparr>validRows = 0, invalidRows = 0, problemRows = []\<rparr>) = []
   \<and> invalidRows (validate_loop [''a'', ''b'', ''c'']
         ([''a'', ''b'', ''c''] # [[''1'', ''2''], [''1'', ''2'', ''3''], [''x''], [''4'', ''5'', ''6'', ''7''], [''8'']]) 1
         \<lparr>validRows = 0, invalidRows = 0, problemRows = []\<rparr>) = 4
   \<and> problemRows (validate_loop [''a'', ''b'', ''c'']
         ([''a'', ''b'', ''c''] # [[''1'', ''2''], [''1'', ''2'', ''3''], [''x''], [''4'', ''5'', ''6'', ''7''], [''8'']]) 1
         \<lparr>validRows = 0, invalidRows = 0, problemRows = []\<rparr>) = [1, 3, 4]"
  using analyzer_counts_mismatched_rows
          [of "[''a'', ''b'', ''c'']" "[[''1'', ''2'', ''3''], [''4'', ''5'', ''6'']]"]
        analyzer_counts_mismatched_rows
          [of "[''a'', ''b'', ''c'']"
              "[[''1'', ''2''], [''1'', ''2'', ''3''], [''x''], [''4'', ''5'', ''6'', ''7''], [''8'']]"]
  by (simp add: Let_def)

section \<open>Batching\<close>

text \<open>
  C2. For every non-empty list of \<open>n\<close> records and every batch size \<open>b \<ge> 1\<close>,
  the batch loop ends having submitted exactly \<open>ceil(n / b)\<close> batches; batch \<open>k\<close>
  is the slice of \<open>b\<close> records starting at index \<open>k * b\<close>, so the batches are
  consecutive and disjoint; every batch but the last has exactly \<open>b\<close> records, the
  last has between 1 and \<open>b\<close>; and the batches concatenated in the order of
  submission are the original list.
\<close>

theorem batches_partition_records:
  assumes ne: "records \<noteq> []" and bs: "batchSize cfg = Fin (int b)" and b: "1 \<le> b"
  shows "\<exists>st. batch_loop w cfg records (Fin 0) \<lparr>successCount = 0, calls = 0, out = []\<rparr> = Some st
      \<and> length (upsert_batches (out st)) = nat \<lceil>real (length records) / real b\<rceil>
      \<and> concat (upsert_batches (out st)) = records
      \<and> (\<forall>k < length (upsert_batches (out st)).
            upsert_batches (out st) ! k = take b (drop (k * b) records))
      \<and> (\<forall>k. Suc k < length (upsert_batches (out st))
            \<longrightarrow> length (upsert_batches (out st) ! k) = b)
      \<and> 0 < length (last (upsert_batches (out st)))
      \<and> length (last (upsert_batches (out st))) \<le> b"
proof -
  define M where "M = nat \<lceil>real (length records) / real b\<rceil>"
  define bt where "bt = upsert_batches (out (iterations w cfg records b M))"
  have b0: "0 < b" using b by simp
  have iff: "(i < M) = (i * b < length records)" for i
    unfolding M_def by (rule less_batches_iff [OF b0])
  have run: "batch_loop w cfg records (Fin 0) \<lparr>successCount = 0, calls = 0, out = []\<rparr>
               = Some (iterations w cfg records b M)"
    unfolding M_def by (rule batch_loop_iterations [OF bs b0])
  have bt: "bt = map (\<lambda>k. take b (drop (k * b) records)) [0..<M]"
    unfolding bt_def by (rule batches_iterations [OF bs b0])
  have len: "length bt = M" by (simp add: bt)
  have cat: "concat bt = records"
    unfolding bt concat_batches M_def by (rule batches_cover [OF b0])
  have nth: "bt ! k = take b (drop (k * b) records)" if "k < M" for k
    using that by (simp add: bt)
  have full: "length (bt ! k) = b" if "Suc k < M" for k
  proof -
    from that have "Suc k * b < length records" using iff by blast
    then have "k * b + b < length records" by (simp add: add.commute)
    moreover have "k < M" using that by simp
    ultimately show ?thesis by (simp add: nth)
  qed
  have pos: "0 < M" using iff [of 0] ne by simp
  then have lst: "last bt = take b (drop ((M - 1) * b) records)"
    using nth [of "M - 1"] len by (metis diff_less last_conv_nth length_0_conv less_numeral_extra(1) less_numeral_extra(3))
  have "(M - 1) * b < length records" using iff [of "M - 1"] pos by simp
  then have lastlen: "0 < length (last bt) \<and> length (last bt) \<le> b"
    using b0 by (simp add: lst)
  show ?thesis
    using run len cat nth full lastlen unfolding bt_def [symmetric] M_def [symmetric]
    by (intro exI [of _ "iterations w cfg records b M"]) (simp add: bt_def [symmetric])
qed

theorem batches_partition_records_witness:
  "sample_records 5 \<noteq> [] \<and> batchSize (sample_config (Fin 2)) = Fin (int 2) \<and> (1::nat) \<le> 2
   \<and> (\<exists>st. batch_loop (sample_world [] [] [1]) (sample_config (Fin 2)) (sample_records 5) (Fin 0)
              \<lparr>successCount = 0, calls = 0, out = []\<rparr> = Some st
      \<and> length (upsert_batches (out st)) = 3
      \<and> concat (upsert_batches (out st)) = sample_records 5
      \<and> upsert_batches (out st) ! 2 = [[(''email'', Num 4)]]
      \<and> length (upsert_batches (out st) ! 0) = 2
      \<and> length (upsert_batches (out st) ! 1) = 2
      \<and> length (last (upsert_batches (out st))) \<le> 2)"
proof -
  have h: "sample_records 5 \<noteq> []" "batchSize (sample_config (Fin 2)) = Fin (int 2)" "(1::nat) \<le> 2"
    by (simp_all add: sample_records_def sample_config_def)
  have n: "length (sample_records 5) = 5" by (simp add: sample_records_def)
  have m: "nat \<lceil>real (length (sample_records 5)) / real 2\<rceil> = 3" by (simp add: n)
  have d: "take 2 (drop (2 * 2) (sample_records 5)) = [[(''email'', Num 4)]]"
    by (simp add: sample_records_def upt_conv_Cons)
  obtain st where st:
    "batch_loop (sample_world [] [] [1]) (sample_config (Fin 2)) (sample_records 5) (Fin 0)
              \<lparr>successCount = 0, calls = 0, out = []\<rparr> = Some st"
    "length (upsert_batches (out st)) = nat \<lceil>real (length (sample_records 5)) / real 2\<rceil>"
    "concat (upsert_batches (out st)) = sample_records 5"
    "\<forall>k < length (upsert_batches (out st)).
            upsert_batches (out st) ! k = take 2 (drop (k * 2) (sample_records 5))"
    "\<forall>k. Suc k < length (upsert_batches (out st))
            \<longrightarrow> length (upsert_batches (out st) ! k) = 2"
    "length (last (upsert_batches (out st))) \<le> 2"
    using batches_partition_records [OF h, of "sample_world [] [] [1]"] by blast
  have l3: "length (upsert_batches (out st)) = 3" using st(2) m by simp
  have "upsert_batches (out st) ! 2 = [[(''email'', Num 4)]]"
    using st(4) l3 d by simp
  moreover have "length (upsert_batches (out st) ! 0) = 2" "length (upsert_batches (out st) ! 1) = 2"
    using st(5) l3 by simp_all
  ultimately show ?thesis
    using h st(1,3,6) l3 by blast
qed

section \<open>Failed batches\<close>

text \<open>
  C3, as amended. On a well-formed file with at least one data row and a batch size
  \<open>b \<ge> 1\<close>, the run returns normally (exit status 0) whatever the remote service
  answers: every batch is submitted exactly once, in order (a failed batch is not
  retried and the run goes on with the next one), and the last line printed is the
  summary, whose count is the total size of the batches whose call returned no error.
  With 125 records and batches of 50 the calls have sizes 50, 50 and 25, and when only
  the second call fails the summary reports 75 of 125.
\<close>

theorem failed_batch_is_skipped:
  assumes readable: "files w p = Some (File c)" and tok: "tokenize w c = h # rest"
    and clean: "list_all (\<lambda>r. length r = length h) rest" and ne: "rest \<noteq> []"
    and bs: "batchSize cfg = Fin (int b)" and b: "1 \<le> b"
  shows "\<exists>t. upsertCsv w p cfg = Some (t, Returned) \<and> exit_code Returned = 0
     \<and> upsert_batches t =
         map (\<lambda>k. take b (drop (k * b) (map (typed_record w h) rest)))
           [0..<nat \<lceil>real (length rest) / real b\<rceil>]
     \<and> last t =
         SummaryMsg
           (sum_list (map (\<lambda>k. if upsert w k (tableName cfg)
                                     (take b (drop (k * b) (map (typed_record w h) rest)))
                                     (uniqueKey cfg) = None
                                then length (take b (drop (k * b) (map (typed_record w h) rest)))
                                else 0)
                        [0..<nat \<lceil>real (length rest) / real b\<rceil>]))
           (length rest)
     \<and> (length rest = 125 \<and> b = 50
          \<and> (\<forall>bt. upsert w 0 (tableName cfg) bt (uniqueKey cfg) = None)
          \<and> (\<forall>bt. upsert w 1 (tableName cfg) bt (uniqueKey cfg) \<noteq> None)
          \<and> (\<forall>bt. upsert w 2 (tableName cfg) bt (uniqueKey cfg) = None)
          \<longrightarrow> map length (upsert_batches t) = [50, 50, 25] \<and> last t = SummaryMsg 75 125)"
proof -
  have b0: "0 < b" using b by simp
  obtain t where t: "upsertCsv w p cfg = Some (t, Returned)"
    "upsert_batches t =
         map (\<lambda>k. take b (drop (k * b) (map (typed_record w h) rest)))
           [0..<nat \<lceil>real (length rest) / real b\<rceil>]"
    "last t =
         SummaryMsg
           (sum_list (map (\<lambda>k. if upsert w k (tableName cfg)
                                     (take b (drop (k * b) (map (typed_record w h) rest)))
                                     (uniqueKey cfg) = None
                                then length (take b (drop (k * b) (map (typed_record w h) rest)))
                                else 0)
                        [0..<nat \<lceil>real (length rest) / real b\<rceil>]))
           (length rest)"
    using upsertCsv_run_batches [OF readable tok clean ne bs b0] by blast
  have "map length (upsert_batches t) = [50, 50, 25] \<and> last t = SummaryMsg 75 125"
    if "length rest = 125" and "b = 50"
      and "\<forall>bt. upsert w 0 (tableName cfg) bt (uniqueKey cfg) = None"
      and "\<forall>bt. upsert w 1 (tableName cfg) bt (uniqueKey cfg) \<noteq> None"
      and "\<forall>bt. upsert w 2 (tableName cfg) bt (uniqueKey cfg) = None"
  proof -
    have l: "length (map (typed_record w h) rest) = 125" using that(1) by simp
    have u: "[0..<nat \<lceil>real (length rest) / real 50\<rceil>] = [0, 1, 2]"
      using scenario_three_batches(1) [OF l] by simp
    show ?thesis
      unfolding t(2,3) \<open>b = 50\<close> u
      using that(1,3,4,5) by simp
  qed
  then show ?thesis using t by auto
qed

theorem failed_batch_is_skipped_witness:
  "files (sample_world ([''email''] # replicate 125 [''a@b.c'']) [] [1]) ''/work/leads.csv''
     = Some (File ''csv'')
   \<and> tokenize (sample_world ([''email''] # replicate 125 [''a@b.c'']) [] [1]) ''csv''
     = [''email''] # replicate 125 [''a@b.c'']
   \<and> list_all (\<lambda>r. length r = length [''email'']) (replicate 125 [''a@b.c''])
   \<and> replicate 125 [''a@b.c''] \<noteq> []
   \<and> batchSize (sample_config (Fin 50)) = Fin (int 50) \<and> (1::nat) \<le> 50
   \<and> (\<exists>t. upsertCsv (sample_world ([''email''] # replicate 125 [''a@b.c'']) [] [1])
              ''/work/leads.csv'' (sample_config (Fin 50)) = Some (t, Returned)
          \<and> map length (upsert_batches t) = [50, 50, 25]
          \<and> last t = SummaryMsg 75 125)"
proof -
  let ?W = "sample_world ([''email''] # replicate 125 [''a@b.c'']) [] [1]"
  have h: "files ?W ''/work/leads.csv'' = Some (File ''csv'')"
    "tokenize ?W ''csv'' = [''email''] # replicate 125 [''a@b.c'']"
    "list_all (\<lambda>r. length r = length [''email'']) (replicate 125 [''a@b.c''])"
    "replicate 125 [''a@b.c''] \<noteq> []"
    "batchSize (sample_config (Fin 50)) = Fin (int 50)" "(1::nat) \<le> 50"
    by (simp_all add: sample_scenario list_all_iff)
  have s: "\<forall>bt. upsert ?W 0 (tableName (sample_config (Fin 50))) bt (uniqueKey (sample_config (Fin 50))) = None"
    "\<forall>bt. upsert ?W 1 (tableName (sample_config (Fin 50))) bt (uniqueKey (sample_config (Fin 50))) \<noteq> None"
    "\<forall>bt. upsert ?W 2 (tableName (sample_config (Fin 50))) bt (uniqueKey (sample_config (Fin 50))) = None"
    by (simp_all add: sample_scenario)
  have n: "length (replicate 125 [''a@b.c'']) = 125 \<and> (50::nat) = 50"
    by simp
  have ex: "\<exists>t. upsertCsv ?W ''/work/leads.csv'' (sample_config (Fin 50)) = Some (t, Returned)
          \<and> map length (upsert_batches t) = [50, 50, 25]
          \<and> last t = SummaryMsg 75 125"
    using failed_batch_is_skipped [OF h]
  proof (elim exE conjE)
    fix t
    assume t: "upsertCsv ?W ''/work/leads.csv'' (sample_config (Fin 50)) = Some (t, Returned)"
      and scenario: "length (replicate 125 [''a@b.c'']) = 125 \<and> (50::nat) = 50
          \<and> (\<forall>bt. upsert ?W 0 (tableName (sample_config (Fin 50))) bt (uniqueKey (sample_config (Fin 50))) = None)
          \<and> (\<forall>bt. upsert ?W 1 (tableName (sample_config (Fin 50))) bt (uniqueKey (sample_config (Fin 50))) \<noteq> None)
          \<and> (\<forall>bt. upsert ?W 2 (tableName (sample_config (Fin 50))) bt (uniqueKey (sample_config (Fin 50))) = None)
          \<longrightarrow> map length (upsert_batches t) = [50, 50, 25] \<and> last t = SummaryMsg 75 125"
    from n s have "length (replicate 125 [''a@b.c'']) = 125 \<and> (50::nat) = 50
          \<and> (\<forall>bt. upsert ?W 0 (tableName (sample_config (Fin 50))) bt (uniqueKey (sample_config (Fin 50))) = None)
          \<and> (\<forall>bt. upsert ?W 1 (tableName (sample_config (Fin 50))) bt (uniqueKey (sample_config (Fin 50))) \<noteq> None)
          \<and> (\<forall>bt. upsert ?W 2 (tableName (sample_config (Fin 50))) bt (uniqueKey (sample_config (Fin 50))) = None)"
      by (intro conjI) (erule conjunct1, erule conjunct2, assumption+)
    with scenario have r: "map length (upsert_batches t) = [50, 50, 25] \<and> last t = SummaryMsg 75 125"
      by (rule mp)
    show ?thesis
      by (rule exI [of _ t]) (intro conjI t conjunct1 [OF r] conjunct2 [OF r])
  qed
  show ?thesis
    by (intro conjI h ex)
qed

text \<open>
  C3 as stated, with a summary of 100 of 125 in the scenario, does not hold:
  with 125 rows, batches of 50 and a remote service that rejects the second call only,
  the summary line is 75 of 125.
\<close>

theorem failed_batch_summary_counterexample:
  "map_option (last \<circ> fst)
     (upsertCsv (sample_world ([''email''] # replicate 125 [''a@b.c'']) [] [1])
        ''/work/leads.csv'' (sample_config (Fin 50))) = Some (SummaryMsg 75 125)
   \<and> map_option (last \<circ> fst)
     (upsertCsv (sample_world ([''email''] # replicate 125 [''a@b.c'']) [] [1])
        ''/work/leads.csv'' (sample_config (Fin 50))) \<noteq> Some (SummaryMsg 100 125)
   \<and> map_option (map length \<circ> upsert_batches \<circ> fst)
     (upsertCsv (sample_world ([''email''] # replicate 125 [''a@b.c'']) [] [1])
        ''/work/leads.csv'' (sample_config (Fin 50))) = Some [50, 50, 25]
   \<and> map_option snd
     (upsertCsv (sample_world ([''email''] # replicate 125 [''a@b.c'']) [] [1])
        ''/work/leads.csv'' (sample_config (Fin 50))) = Some Returned"
proof -
  define W where "W = sample_world ([''email''] # replicate 125 [''a@b.c'']) [] [1]"
  define recs where "recs = map (typed_record W [''email'']) (replicate 125 [''a@b.c''])"
  have h: "files W ''/work/leads.csv'' = Some (File ''csv'')"
    "tokenize W ''csv'' = [''email''] # replicate 125 [''a@b.c'']"
    "list_all (\<lambda>r. length r = length [''email'']) (replicate 125 [''a@b.c''])"
    "replicate 125 [''a@b.c''] \<noteq> []"
    "batchSize (sample_config (Fin 50)) = Fin (int 50)" "(0::nat) < 50"
    by (simp_all add: W_def sample_scenario list_all_iff)
  have l: "length recs = 125" by (simp add: recs_def)
  have u: "[0..<nat \<lceil>real (length (replicate 125 [''a@b.c''])) / real 50\<rceil>] = [0, 1, 2]"
    using scenario_three_batches(1) [OF l] by (simp add: l)
  obtain t where t: "upsertCsv W ''/work/leads.csv'' (sample_config (Fin 50)) = Some (t, Returned)"
    "upsert_batches t = map (\<lambda>k. take 50 (drop (k * 50) recs)) [0, 1, 2]"
    "last t =
       SummaryMsg
         (sum_list (map (\<lambda>k. if upsert W k (tableName (sample_config (Fin 50)))
                                   (take 50 (drop (k * 50) recs))
                                   (uniqueKey (sample_config (Fin 50))) = None
                              then length (take 50 (drop (k * 50) recs)) else 0) [0, 1, 2]))
         (length (replicate 125 [''a@b.c'']))"
    using upsertCsv_run_batches [OF h] unfolding u recs_def [symmetric] by blast
  have "last t = SummaryMsg 75 125"
    unfolding t(3) by (simp add: W_def sample_scenario l)
  moreover have "map length (upsert_batches t) = [50, 50, 25]"
    unfolding t(2) by (simp add: l)
  ultimately show ?thesis
    using t(1) unfolding W_def by simp
qed

section \<open>Termination of the batch loop\<close>

text \<open>
  C10. For every list of records and every batch size \<open>b \<ge> 1\<close> the batch loop
  ends, after exactly \<open>ceil(n / b)\<close> iterations, the body having run at the indices
  \<open>0\<close>, \<open>b\<close>, \<open>2 * b\<close>, ... (one upsert call each); the summary line is
  printed right after the loop; and \<^verbatim>\<open>upsertCsv\<close> as a whole returns or exits.
\<close>

theorem batch_loop_terminates:
  assumes bs: "batchSize cfg = Fin (int b)" and b: "1 \<le> b"
  shows "\<exists>st. batch_loop w cfg records (Fin 0) \<lparr>successCount = 0, calls = 0, out = []\<rparr> = Some st
      \<and> st = iterations w cfg records b (nat \<lceil>real (length records) / real b\<rceil>)
      \<and> calls st = nat \<lceil>real (length records) / real b\<rceil>
      \<and> length (upsert_batches (out st)) = nat \<lceil>real (length records) / real b\<rceil>
      \<and> process_batches w cfg records =
          Some ([FoundMsg (length records)] @ out st
                @ [SummaryMsg (successCount st) (length records)])
      \<and> (\<exists>r. upsertCsv w p cfg = Some r)"
proof -
  have b0: "0 < b" using b by simp
  show ?thesis
    using upsertCsv_returns [OF bs b0, of w p]
    by (simp add: batch_loop_iterations [OF bs b0] calls_iterations [OF bs b0]
        batches_iterations [OF bs b0] process_batches_closed [OF bs b0])
qed

theorem batch_loop_terminates_witness:
  "batchSize (sample_config (Fin 2)) = Fin (int 2) \<and> (1::nat) \<le> 2
   \<and> (\<exists>st. batch_loop (sample_world [] [] [1]) (sample_config (Fin 2)) (sample_records 5) (Fin 0)
              \<lparr>successCount = 0, calls = 0, out = []\<rparr> = Some st
      \<and> calls st = 3
      \<and> length (upsert_batches (out st)) = 3
      \<and> process_batches (sample_world [] [] [1]) (sample_config (Fin 2)) (sample_records 5) =
          Some ([FoundMsg 5] @ out st @ [SummaryMsg (successCount st) 5]))"
proof -
  have h: "batchSize (sample_config (Fin 2)) = Fin (int 2)" "(1::nat) \<le> 2"
    by (simp_all add: sample_scenario)
  have n: "length (sample_records 5) = 5" by (simp add: sample_records_def)
  have m: "nat \<lceil>real 5 / real 2\<rceil> = 3" by simp
  have ex: "\<exists>st. batch_loop (sample_world [] [] [1]) (sample_config (Fin 2)) (sample_records 5) (Fin 0)
              \<lparr>successCount = 0, calls = 0, out = []\<rparr> = Some st
      \<and> calls st = 3
      \<and> length (upsert_batches (out st)) = 3
      \<and> process_batches (sample_world [] [] [1]) (sample_config (Fin 2)) (sample_records 5) =
          Some ([FoundMsg 5] @ out st @ [SummaryMsg (successCount st) 5])"
    using batch_loop_terminates [OF h, of "sample_world [] [] [1]" "sample_records 5"
        "''/work/leads.csv''"]
    unfolding n m
  proof (elim exE conjE)
    fix st
    assume a: "batch_loop (sample_world [] [] [1]) (sample_config (Fin 2)) (sample_records 5) (Fin 0)
              \<lparr>successCount = 0, calls = 0, out = []\<rparr> = Some st"
      and c: "calls st = 3"
      and l: "length (upsert_batches (out st)) = 3"
      and pb: "process_batches (sample_world [] [] [1]) (sample_config (Fin 2)) (sample_records 5) =
          Some ([FoundMsg 5] @ out st @ [SummaryMsg (successCount st) 5])"
    show ?thesis
      by (rule exI [of _ st]) (intro conjI a c l pb)
  qed
  show ?thesis
    by (intro conjI h ex)
qed

section \<open>The structural gate\<close>

text \<open>
  C1. If some data row of the file has a cell count different from the header's, the
  run prints the detailed diagnostic for the first three such rows (for all of them
  when there are fewer) and exits with status 1 without a single upsert call, whatever
  the batch size.
\<close>

theorem structural_mismatch_aborts:
  assumes readable: "files w p = Some (File c)" and tok: "tokenize w c = h # rest"
    and bad: "\<exists>r \<in> set rest. length r \<noteq> length h"
  shows "\<exists>t. upsertCsv w p cfg = Some (t, Exited 1)
      \<and> upsert_batches t = []
      \<and> sample_rows t = take 3 (filter (\<lambda>i. length ((h # rest) ! i) \<noteq> length h)
                                   [1..<length (h # rest)])
      \<and> length (sample_rows t) = min 3 (length (filter (\<lambda>r. length r \<noteq> length h) rest))"
proof -
  have nall: "\<not> list_all (\<lambda>r. length r = length h) rest"
    using bad by (auto simp: list_all_iff)
  define t where "t = ReadFile p # fst (analyzeErrors w (papa_parse_header w c) p)
                 @ [WouldYouLikeMsg, ContinueOptionMsg, AbortOptionMsg]"
  have run: "upsertCsv w p cfg = Some (t, Exited 1)"
    unfolding t_def by (rule upsertCsv_mismatch [OF readable tok nall])
  have nb: "upsert_batches t = []"
    by (simp add: t_def analyzeErrors_mismatch [OF readable tok nall] upsert_batches_append
        problem_reports_events)
  have sr: "sample_rows t = take 3 (filter (\<lambda>i. length ((h # rest) ! i) \<noteq> length h)
                                   [1..<length (h # rest)])"
    by (simp add: t_def analyzeErrors_mismatch [OF readable tok nall] sample_rows_append
        problem_reports_events)
  have "length (sample_rows t) = min 3 (length (filter (\<lambda>r. length r \<noteq> length h) rest))"
    unfolding sr
    using filter_tail_indices [of "\<lambda>r. length r \<noteq> length h" h rest]
    by (simp add: min.commute)
  with run nb sr show ?thesis by blast
qed

theorem structural_mismatch_aborts_witness:
  "files (sample_world [[''a'', ''b'', ''c''], [''1'', ''2'']] [] []) ''/work/leads.csv''
     = Some (File ''csv'')
   \<and> tokenize (sample_world [[''a'', ''b'', ''c''], [''1'', ''2'']] [] []) ''csv''
     = [''a'', ''b'', ''c''] # [[''1'', ''2'']]
   \<and> [''1'', ''2''] \<in> set [[''1'', ''2'']] \<and> length [''1'', ''2''] \<noteq> length [''a'', ''b'', ''c'']
   \<and> (\<exists>t. upsertCsv (sample_world [[''a'', ''b'', ''c''], [''1'', ''2'']] [] [])
              ''/work/leads.csv'' (sample_config (Fin 50)) = Some (t, Exited 1)
          \<and> upsert_batches t = []
          \<and> sample_rows t = [1])"
proof -
  let ?W = "sample_world [[''a'', ''b'', ''c''], [''1'', ''2'']] [] []"
  have h: "files ?W ''/work/leads.csv'' = Some (File ''csv'')"
    "tokenize ?W ''csv'' = [''a'', ''b'', ''c''] # [[''1'', ''2'']]"
    "\<exists>r \<in> set [[''1'', ''2'']]. length r \<noteq> length [''a'', ''b'', ''c'']"
    by (simp_all add: sample_scenario)
  have "\<exists>t. upsertCsv ?W ''/work/leads.csv'' (sample_config (Fin 50)) = Some (t, Exited 1)
          \<and> upsert_batches t = []
          \<and> sample_rows t = [1]"
    using structural_mismatch_aborts [OF h, of "sample_config (Fin 50)"] by simp blast
  then show ?thesis
    using h(1,2) by simp
qed

section \<open>Reconciliation of the two passes\<close>

text \<open>
  C5. When the structural pass counts no invalid row (every data row has as many cells
  as the header), \<^verbatim>\<open>analyzeErrors\<close> empties the typed parser's error list, whatever
  it held; the run then never stops at the error gate, and with at least one data row
  and a batch size \<open>b \<ge> 1\<close> it goes on to upsert every record of the typed parse.
\<close>

theorem clean_structure_clears_errors:
  assumes readable: "files w p = Some (File c)" and tok: "tokenize w c = h # rest"
    and clean: "list_all (\<lambda>r. length r = length h) rest"
  shows "invalidRows (validate_loop h (h # rest) 1
            \<lparr>validRows = 0, invalidRows = 0, problemRows = []\<rparr>) = 0
      \<and> snd (analyzeErrors w pr p) = Inr (pr\<lparr>errors := []\<rparr>)
      \<and> (\<forall>t s. upsertCsv w p cfg = Some (t, s) \<longrightarrow> s = Returned)
      \<and> (rest \<noteq> [] \<and> batchSize cfg = Fin (int b) \<and> 1 \<le> b \<longrightarrow>
           (\<exists>t. upsertCsv w p cfg = Some (t, Returned)
              \<and> concat (upsert_batches t) = data (papa_parse_header w c)))"
proof -
  have z: "invalidRows (validate_loop h (h # rest) 1
            \<lparr>validRows = 0, invalidRows = 0, problemRows = []\<rparr>) = 0"
    using clean by (simp add: tally_closed list_all_iff filter_empty_conv)
  have a: "snd (analyzeErrors w pr p) = Inr (pr\<lparr>errors := []\<rparr>)"
    by (simp add: analyzeErrors_clean [OF readable tok clean])
  have r: "\<exists>t. upsertCsv w p cfg = Some (t, Returned)
              \<and> concat (upsert_batches t) = data (papa_parse_header w c)"
    if ne: "rest \<noteq> []" and bs: "batchSize cfg = Fin (int b)" and b1: "1 \<le> b"
  proof -
    have b0: "0 < b" using b1 by simp
    obtain t where t: "upsertCsv w p cfg = Some (t, Returned)"
      "upsert_batches t =
         map (\<lambda>k. take b (drop (k * b) (map (typed_record w h) rest)))
           [0..<nat \<lceil>real (length rest) / real b\<rceil>]"
      using upsertCsv_run_batches [OF readable tok clean ne bs b0] by blast
    have "concat (upsert_batches t) = map (typed_record w h) rest"
      unfolding t(2) concat_batches
      using batches_cover [OF b0, of "map (typed_record w h) rest"] by simp
    then show ?thesis
      using t(1) by (simp add: parse_header_rows [OF tok])
  qed
  have g: "\<forall>t s. upsertCsv w p cfg = Some (t, s) \<longrightarrow> s = Returned"
    by (simp add: upsertCsv_clean [OF readable tok clean] split: option.split)
  show ?thesis
    using z a g r by blast
qed

theorem clean_structure_clears_errors_witness:
  "files (sample_world [[''a'', ''b''], [''1'', ''2'']] [ScanError ''MissingQuotes''] [])
     ''/work/leads.csv'' = Some (File ''csv'')
   \<and> tokenize (sample_world [[''a'', ''b''], [''1'', ''2'']] [ScanError ''MissingQuotes''] []) ''csv''
     = [''a'', ''b''] # [[''1'', ''2'']]
   \<and> list_all (\<lambda>r. length r = length [''a'', ''b'']) [[''1'', ''2'']]
   \<and> errors (papa_parse_header
         (sample_world [[''a'', ''b''], [''1'', ''2'']] [ScanError ''MissingQuotes''] []) ''csv'')
       = [ScanError ''MissingQuotes'']
   \<and> snd (analyzeErrors
         (sample_world [[''a'', ''b''], [''1'', ''2'']] [ScanError ''MissingQuotes''] [])
         (papa_parse_header
            (sample_world [[''a'', ''b''], [''1'', ''2'']] [ScanError ''MissingQuotes''] []) ''csv'')
         ''/work/leads.csv'')
       = Inr \<lparr>data = [[(''a'', Str ''1''), (''b'', Str ''2'')]], errors = []\<rparr>
   \<and> [[''1'', ''2'']] \<noteq> [] \<and> batchSize (sample_config (Fin 50)) = Fin (int 50)
   \<and> (1::nat) \<le> 50
   \<and> (\<exists>t. upsertCsv
              (sample_world [[''a'', ''b''], [''1'', ''2'']] [ScanError ''MissingQuotes''] [])
              ''/work/leads.csv'' (sample_config (Fin 50)) = Some (t, Returned)
          \<and> concat (upsert_batches t) = [[(''a'', Str ''1''), (''b'', Str ''2'')]])"
proof -
  let ?W = "sample_world [[''a'', ''b''], [''1'', ''2'']] [ScanError ''MissingQuotes''] []"
  have h: "files ?W ''/work/leads.csv'' = Some (File ''csv'')"
    "tokenize ?W ''csv'' = [''a'', ''b''] # [[''1'', ''2'']]"
    "list_all (\<lambda>r. length r = length [''a'', ''b'']) [[''1'', ''2'']]"
    by (simp_all add: sample_scenario)
  have pr: "papa_parse_header ?W ''csv''
      = \<lparr>data = [[(''a'', Str ''1''), (''b'', Str ''2'')]], errors = [ScanError ''MissingQuotes'']\<rparr>"
    by (simp add: papa_parse_header_def sample_scenario typed_record_def typed_cell_def
        transform_def dynamicTyping_def sample_world_def)
  have k: "[[''1'', ''2'']] \<noteq> [] \<and> batchSize (sample_config (Fin 50)) = Fin (int 50)
             \<and> (1::nat) \<le> 50"
    by (simp add: sample_scenario)
  note inst = clean_structure_clears_errors [OF h, of "papa_parse_header ?W ''csv''"
      "sample_config (Fin 50)" 50]
  have a: "snd (analyzeErrors ?W (papa_parse_header ?W ''csv'') ''/work/leads.csv'')
       = Inr \<lparr>data = [[(''a'', Str ''1''), (''b'', Str ''2'')]], errors = []\<rparr>"
    using inst by (simp add: pr)
  have "\<exists>t. upsertCsv ?W ''/work/leads.csv'' (sample_config (Fin 50)) = Some (t, Returned)
          \<and> concat (upsert_batches t) = data (papa_parse_header ?W ''csv'')"
    using inst k by blast
  then have ex: "\<exists>t. upsertCsv ?W ''/work/leads.csv'' (sample_config (Fin 50)) = Some (t, Returned)
          \<and> concat (upsert_batches t) = [[(''a'', Str ''1''), (''b'', Str ''2'')]]"
    by (simp add: pr)
  have e: "errors (papa_parse_header ?W ''csv'') = [ScanError ''MissingQuotes'']"
    by (simp add: pr)
  show ?thesis
    by (intro conjI h e a ex conjunct1 [OF k] conjunct1 [OF conjunct2 [OF k]]
        conjunct2 [OF conjunct2 [OF k]])
qed

section \<open>No records\<close>

text \<open>
  C4, as amended. When the typed parse yields no record, no upsert call is made. If
  the file has a header row, the run prints the no-data message and returns, so the
  process ends with status 0; the status is 1 only when the file has no row at all,
  where reading the length of the missing header row throws and the handler exits.
\<close>

theorem no_records_returns:
  assumes readable: "files w p = Some (File c)"
    and nodata: "data (papa_parse_header w c) = []"
  shows "\<exists>t s. upsertCsv w p cfg = Some (t, s) \<and> upsert_batches t = []
      \<and> s = (if tokenize w c = [] then Exited 1 else Returned)
      \<and> (tokenize w c \<noteq> [] \<longrightarrow> last t = NoDataMsg \<and> exit_code s = 0)"
proof (cases "tokenize w c")
  case Nil
  then show ?thesis
    by (simp add: upsertCsv_empty [OF readable Nil])
next
  case (Cons h rest)
  with nodata have e: "rest = []"
    by (simp add: parse_header_rows [OF Cons])
  have clean: "list_all (\<lambda>r. length r = length h) rest"
    by (simp add: e)
  show ?thesis
    using e Cons
    by (simp add: upsertCsv_clean [OF readable Cons clean]
        analyzeErrors_clean [OF readable Cons clean])
qed

theorem no_records_returns_witness:
  "files (sample_world [[''email'', ''name'']] [] []) ''/work/leads.csv'' = Some (File ''csv'')
   \<and> data (papa_parse_header (sample_world [[''email'', ''name'']] [] []) ''csv'') = []
   \<and> tokenize (sample_world [[''email'', ''name'']] [] []) ''csv'' \<noteq> []
   \<and> (\<exists>t. upsertCsv (sample_world [[''email'', ''name'']] [] []) ''/work/leads.csv''
              (sample_config (Fin 50)) = Some (t, Returned)
          \<and> upsert_batches t = [] \<and> last t = NoDataMsg)"
proof -
  let ?W = "sample_world [[''email'', ''name'']] [] []"
  have h: "files ?W ''/work/leads.csv'' = Some (File ''csv'')"
    "data (papa_parse_header ?W ''csv'') = []"
    by (simp_all add: sample_scenario papa_parse_header_def)
  have n: "tokenize ?W ''csv'' \<noteq> []"
    by (simp add: sample_scenario)
  have ex: "\<exists>t. upsertCsv ?W ''/work/leads.csv'' (sample_config (Fin 50)) = Some (t, Returned)
          \<and> upsert_batches t = [] \<and> last t = NoDataMsg"
    using no_records_returns [OF h, of "sample_config (Fin 50)"] n by auto
  show ?thesis
    by (intro conjI h n ex)
qed

text \<open>
  C4 as stated, with status 1 whenever there is no record, does not hold on a file that
  has a header row and nothing else: the command ends with status 0.
\<close>

theorem no_records_exit_counterexample:
  "data (papa_parse_header (sample_world [[''email'', ''name'']] [] []) ''csv'') = []
   \<and> action (sample_world [[''email'', ''name'']] [] []) ''leads.csv''
        \<lparr>table = ''contacts'', id_opt = ''email'', batch = ''50''\<rparr>
     = Some ([ExistsSync ''/work/leads.csv'', UpsertingMsg ''/work/leads.csv'' ''contacts'',
              UsingMsg ''email'', ReadFile ''/work/leads.csv'', ReadFile ''/work/leads.csv'',
              StructureMsg, ExpectedColumnsMsg 2, TotalRowsMsg 1, ValidRowsMsg 0, NoDataMsg],
             0)"
proof -
  let ?W = "sample_world [[''email'', ''name'']] [] []"
  have h: "files ?W ''/work/leads.csv'' = Some (File ''csv'')"
    "tokenize ?W ''csv'' = [''email'', ''name''] # []"
    "list_all (\<lambda>r. length r = length [''email'', ''name'']) []"
    by (simp_all add: sample_scenario)
  have d: "data (papa_parse_header ?W ''csv'') = []"
    by (simp add: sample_scenario papa_parse_header_def)
  have f: "files ?W (path_resolve ?W (cwd ?W) ''leads.csv'') = Some (File ''csv'')"
    by (simp add: sample_env sample_scenario)
  have u: "upsertCsv ?W ''/work/leads.csv'' cfg =
      Some ([ReadFile ''/work/leads.csv'', ReadFile ''/work/leads.csv'',
              StructureMsg, ExpectedColumnsMsg 2, TotalRowsMsg 1, ValidRowsMsg 0, NoDataMsg],
            Returned)" for cfg
    by (simp add: upsertCsv_clean [OF h] analyzeErrors_clean [OF h])
  have "action ?W ''leads.csv'' \<lparr>table = ''contacts'', id_opt = ''email'', batch = ''50''\<rparr>
     = Some ([ExistsSync ''/work/leads.csv'', UpsertingMsg ''/work/leads.csv'' ''contacts'',
              UsingMsg ''email'', ReadFile ''/work/leads.csv'', ReadFile ''/work/leads.csv'',
              StructureMsg, ExpectedColumnsMsg 2, TotalRowsMsg 1, ValidRowsMsg 0, NoDataMsg],
             0)"
    by (simp add: action_runs [OF sample_env(1) _ sample_env(2) _ f] sample_env(3) u)
  with d show ?thesis by (intro conjI)
qed

section \<open>Empty cells\<close>

text \<open>
  C7. In the typed parse a cell whose raw string is empty becomes null: the transform
  of \<^verbatim>\<open>upsertCsv\<close> maps it to null before the dynamic typing, which leaves null
  alone. No cell of any record is the empty string, and the field at the position of
  an empty cell holds null.
\<close>

theorem empty_cell_becomes_null:
  "typed_cell w '''' = Null
   \<and> typed_cell w v \<noteq> Str ''''
   \<and> (\<forall>r \<in> set (data (papa_parse_header w c)). \<forall>fv \<in> set r. snd fv \<noteq> Str '''')
   \<and> (\<forall>i < length names. i < length row \<longrightarrow> row ! i = ''''
         \<longrightarrow> snd (typed_record w names row ! i) = Null)"
proof -
  have a: "typed_cell w '''' = Null"
    by (simp add: typed_cell_def transform_def dynamicTyping_def)
  have b: "typed_cell w u \<noteq> Str ''''" for u
    by (simp add: typed_cell_def transform_def dynamicTyping_def split: option.split)
  have r: "snd fv \<noteq> Str ''''" if "fv \<in> set (typed_record w ns rw)" for fv ns rw
  proof -
    have "(fst fv, snd fv) \<in> set (zip ns (map (typed_cell w) rw))"
      using that by (simp add: typed_record_def)
    then have "snd fv \<in> set (map (typed_cell w) rw)"
      by (rule set_zip_rightD)
    then obtain x where "snd fv = typed_cell w x" by auto
    then show ?thesis by (simp only: b not_False_eq_True)
  qed
  have d: "\<forall>r \<in> set (data (papa_parse_header w c)). \<forall>fv \<in> set r. snd fv \<noteq> Str ''''"
    using r by (auto simp: papa_parse_header_def split: list.split)
  have e: "\<forall>i < length names. i < length row \<longrightarrow> row ! i = ''''
         \<longrightarrow> snd (typed_record w names row ! i) = Null"
    by (simp add: typed_record_def a)
  show ?thesis
    using a b d e by blast
qed

theorem empty_cell_becomes_null_witness:
  "[(''a'', Str ''x''), (''b'', Null)]
     \<in> set (data (papa_parse_header (sample_world [[''a'', ''b''], [''x'', '''']] [] []) ''csv''))
   \<and> (''b'', Null) \<in> set [(''a'', Str ''x''), (''b'', Null)]
   \<and> snd (''b'', Null) \<noteq> Str ''''
   \<and> (1::nat) < length [''a'', ''b''] \<and> 1 < length [''x'', '''']
   \<and> [''x'', ''''] ! 1 = ''''
   \<and> snd (typed_record (sample_world [[''a'', ''b''], [''x'', '''']] [] [])
             [''a'', ''b''] [''x'', ''''] ! 1) = Null
   \<and> typed_cell (sample_world [[''a'', ''b''], [''x'', '''']] [] []) '''' = Null"
proof -
  let ?W = "sample_world [[''a'', ''b''], [''x'', '''']] [] []"
  have m: "[(''a'', Str ''x''), (''b'', Null)] \<in> set (data (papa_parse_header ?W ''csv''))"
    by (simp add: papa_parse_header_def sample_scenario typed_record_def typed_cell_def
        transform_def dynamicTyping_def sample_world_def)
  have i: "(1::nat) < length [''a'', ''b'']" "(1::nat) < length [''x'', '''']"
    "[''x'', ''''] ! 1 = ''''"
    by simp_all
  note inst = empty_cell_becomes_null [of ?W "''''" "''csv''" "[''a'', ''b'']" "[''x'', '''']"]
  have n: "snd (typed_record ?W [''a'', ''b''] [''x'', ''''] ! 1) = Null"
    using inst i by blast
  have s: "snd (''b'', Null) \<noteq> Str ''''"
    using inst m by fastforce
  have t: "typed_cell ?W '''' = Null"
    using inst by blast
  have k: "(''b'', Null) \<in> set [(''a'', Str ''x''), (''b'', Null)]"
    by simp
  show ?thesis
    by (intro conjI m k s i n t)
qed

section \<open>Credentials\<close>

text \<open>
  C8. If either environment variable is absent (or empty) when the command starts, the
  process prints the error and exits with status 1; nothing else happens in the run, in
  particular no check that the file exists and no read of it.
\<close>

theorem missing_credentials_exit_first:
  assumes "env w ''SUPABASE_URL'' \<in> {None, Some ''''} \<or> env w ''SUPABASE_KEY'' \<in> {None, Some ''''}"
  shows "\<exists>t. action w file opts = Some (t, 1) \<and> t = [EnvErrorMsg]
           \<and> filter is_file_access t = []"
  using assms by (auto simp: action_def Let_def split: option.split)

theorem missing_credentials_exit_first_witness:
  "env ((sample_world [] [] [])\<lparr>env := [''SUPABASE_KEY'' \<mapsto> ''secret'']\<rparr>) ''SUPABASE_URL'' = None
   \<and> (\<exists>t. action ((sample_world [] [] [])\<lparr>env := [''SUPABASE_KEY'' \<mapsto> ''secret'']\<rparr>)
              ''leads.csv'' \<lparr>table = ''contacts'', id_opt = ''email'', batch = ''50''\<rparr>
            = Some (t, 1)
          \<and> t = [EnvErrorMsg] \<and> filter is_file_access t = [])"
proof -
  have h: "env ((sample_world [] [] [])\<lparr>env := [''SUPABASE_KEY'' \<mapsto> ''secret'']\<rparr>) ''SUPABASE_URL'' = None"
    by simp
  then have "env ((sample_world [] [] [])\<lparr>env := [''SUPABASE_KEY'' \<mapsto> ''secret'']\<rparr>) ''SUPABASE_URL''
       \<in> {None, Some ''''}
     \<or> env ((sample_world [] [] [])\<lparr>env := [''SUPABASE_KEY'' \<mapsto> ''secret'']\<rparr>) ''SUPABASE_KEY''
       \<in> {None, Some ''''}"
    by simp
  from missing_credentials_exit_first [OF this] h show ?thesis
    by (intro conjI)
qed

section \<open>Records are not changed\<close>

text \<open>
  C9. \<^verbatim>\<open>analyzeErrors\<close> changes nothing of the parse result but its error list,
  which it either leaves as it is or empties: the record list is the same afterwards.
  Every batch that \<^verbatim>\<open>upsertCsv\<close> submits, for any batch size, is a slice of the
  record list as the typed parse produced it, so every record submitted is one of
  those records, unchanged.
\<close>

theorem analysis_leaves_records:
  "(\<forall>t pr'. analyzeErrors w pr p = (t, Inr pr')
       \<longrightarrow> data pr' = data pr \<and> (errors pr' = errors pr \<or> errors pr' = []))
   \<and> (\<forall>c t s. files w p = Some (File c) \<and> upsertCsv w p cfg = Some (t, s)
       \<longrightarrow> list_all (\<lambda>bt. \<exists>i e. bt = js_slice (data (papa_parse_header w c)) i e)
             (upsert_batches t)
           \<and> set (concat (upsert_batches t)) \<subseteq> set (data (papa_parse_header w c)))"
proof -
  have a: "data pr' = data pr0 \<and> (errors pr' = errors pr0 \<or> errors pr' = [])"
    if "analyzeErrors w pr0 p = (t, Inr pr')" for t pr' pr0
    using that
    by (auto simp: analyzeErrors_def Let_def readFileSync_def
        split: option.splits fs_entry.splits list.splits if_splits)
  have b: "list_all (\<lambda>bt. \<exists>i e. bt = js_slice (data (papa_parse_header w c)) i e)
             (upsert_batches t)"
    if f: "files w p = Some (File c)" and u: "upsertCsv w p cfg = Some (t, s)" for c t s
  proof (cases "analyzeErrors w (papa_parse_header w c) p")
    case (Pair t1 r)
    have s1: "upsert_batches t1 = []"
      using analysis_silent [of w "papa_parse_header w c" p] Pair by simp
    show ?thesis
    proof (cases r)
      case (Inl e)
      with u f Pair s1 show ?thesis
        by (auto simp: upsertCsv_def readFileSync_def Let_def upsert_batches_append)
    next
      case (Inr pr')
      have d: "data pr' = data (papa_parse_header w c)"
        using a [of "papa_parse_header w c" t1 pr'] Pair Inr by simp
      show ?thesis
      proof (cases "errors pr' \<noteq> [] \<or> data pr' = []")
        case True
        with u f Pair Inr s1 show ?thesis
          by (auto simp: upsertCsv_def readFileSync_def Let_def upsert_batches_append
              split: if_splits)
      next
        case False
        with u f Pair Inr obtain t' where
          t': "process_batches w cfg (data pr') = Some t'" and t: "t = ReadFile p # t1 @ t'"
          by (auto simp: upsertCsv_def readFileSync_def Let_def split: option.splits)
        have "upsert_batches t = upsert_batches t'"
          by (simp add: t upsert_batches_append s1)
        then show ?thesis
          using process_batches_slices [OF t'] d by simp
      qed
    qed
  qed
  have c: "set (concat (upsert_batches t)) \<subseteq> set (data (papa_parse_header w c))"
    if f: "files w p = Some (File c)" and u: "upsertCsv w p cfg = Some (t, s)" for c t s
  proof
    fix x
    assume "x \<in> set (concat (upsert_batches t))"
    then obtain bt where bt: "bt \<in> set (upsert_batches t)" and x: "x \<in> set bt"
      by auto
    from b [OF f u] bt obtain i e where "bt = js_slice (data (papa_parse_header w c)) i e"
      by (auto simp: list_all_iff)
    with x set_js_slice [of "data (papa_parse_header w c)" i e]
    show "x \<in> set (data (papa_parse_header w c))"
      by blast
  qed
  show ?thesis
    using a b c by blast
qed

theorem analysis_leaves_records_witness:
  "analyzeErrors (sample_world [[''a'', ''b''], [''1'', ''2'']] [ScanError ''MissingQuotes''] [])
     \<lparr>data = [[(''a'', Str ''1''), (''b'', Str ''2'')]], errors = [ScanError ''MissingQuotes'']\<rparr>
     ''/work/leads.csv''
   = ([ReadFile ''/work/leads.csv'', StructureMsg, ExpectedColumnsMsg 2, TotalRowsMsg 2,
       ValidRowsMsg 1],
      Inr \<lparr>data = [[(''a'', Str ''1''), (''b'', Str ''2'')]], errors = []\<rparr>)
   \<and> data \<lparr>data = [[(''a'', Str ''1''), (''b'', Str ''2'')]], errors = ([] :: parse_error list)\<rparr>
     = data \<lparr>data = [[(''a'', Str ''1''), (''b'', Str ''2'')]],
              errors = [ScanError ''MissingQuotes'']\<rparr>
   \<and> files (sample_world [[''a'', ''b''], [''1'', ''2'']] [ScanError ''MissingQuotes''] [])
        ''/work/leads.csv'' = Some (File ''csv'')
   \<and> (\<exists>t. upsertCsv
              (sample_world [[''a'', ''b''], [''1'', ''2'']] [ScanError ''MissingQuotes''] [])
              ''/work/leads.csv'' (sample_config (Fin 50)) = Some (t, Returned)
          \<and> set (concat (upsert_batches t))
              \<subseteq> set (data (papa_parse_header
                   (sample_world [[''a'', ''b''], [''1'', ''2'']] [ScanError ''MissingQuotes''] [])
                   ''csv'')))"
proof -
  let ?W = "sample_world [[''a'', ''b''], [''1'', ''2'']] [ScanError ''MissingQuotes''] []"
  let ?pr = "\<lparr>data = [[(''a'', Str ''1''), (''b'', Str ''2'')]],
              errors = [ScanError ''MissingQuotes'']\<rparr>"
  have h: "files ?W ''/work/leads.csv'' = Some (File ''csv'')"
    "tokenize ?W ''csv'' = [''a'', ''b''] # [[''1'', ''2'']]"
    "list_all (\<lambda>r. length r = length [''a'', ''b'']) [[''1'', ''2'']]"
    "[[''1'', ''2'']] \<noteq> []"
    "batchSize (sample_config (Fin 50)) = Fin (int 50)" "(0::nat) < 50"
    by (simp_all add: sample_scenario)
  have r: "analyzeErrors ?W ?pr ''/work/leads.csv''
   = ([ReadFile ''/work/leads.csv'', StructureMsg, ExpectedColumnsMsg 2, TotalRowsMsg 2,
       ValidRowsMsg 1],
      Inr \<lparr>data = [[(''a'', Str ''1''), (''b'', Str ''2'')]], errors = []\<rparr>)"
    by (simp add: analyzeErrors_clean [OF h(1-3)])
  note inst = analysis_leaves_records
      [of ?W ?pr "''/work/leads.csv''" "sample_config (Fin 50)"]
  from inst r
  have d: "data \<lparr>data = [[(''a'', Str ''1''), (''b'', Str ''2'')]], errors = ([] :: parse_error list)\<rparr>
     = data ?pr"
    by blast
  obtain t where t: "upsertCsv ?W ''/work/leads.csv'' (sample_config (Fin 50)) = Some (t, Returned)"
    using upsertCsv_run_batches [OF h] by blast
  with inst h(1)
  have "set (concat (upsert_batches t)) \<subseteq> set (data (papa_parse_header ?W ''csv''))"
    by blast
  with t have ex: "\<exists>t. upsertCsv ?W ''/work/leads.csv'' (sample_config (Fin 50)) = Some (t, Returned)
          \<and> set (concat (upsert_batches t)) \<subseteq> set (data (papa_parse_header ?W ''csv''))"
    by blast
  show ?thesis
    by (intro conjI r d h(1) ex)
qed

end
